theory Spec2Isabelle
  imports Main "HOL-Library.Sublist"
begin

text \<open>
  A shallow embedding of ydls, a service that fetches media with an extraction tool and
  hands it on transcoded: package \<open>youtubedl\<close> (the format catalog: \<open>normalizeCodecName\<close>,
  \<open>codecFromExt\<close>, \<open>parseInfo\<close>, \<open>NewFromPath\<close>, \<open>NewFromURL\<close>), the feed of package \<open>ydls\<close>
  (\<open>RSSFromYDLSInfo\<close>) and its format selection (\<open>findYDLFormat\<close>).

  Pure functions are HOL functions of the same name. Errors and panics are values of the
  type \<open>error\<close>, returned on the left of a sum. What the code takes from the standard
  library or the operating system and what depends on the outside (decoding JSON, the file
  system, a run of the extraction tool, URLs) is a parameter, so every theorem holds for
  any behaviour of it. Loops are recursive functions over the list they range over. The
  definitions come first, the properties of each function follow.
\<close>

section \<open>Go strings and the string functions the sources call\<close>

text \<open>
  A Go string is a sequence of bytes, modelled as \<^typ>\<open>string\<close> (a list of 8-bit
  characters). The functions of package \<^verbatim>\<open>strings\<close> and \<^verbatim>\<open>path\<close> below are the
  standard library's, written out for the arguments the sources pass.
\<close>

text \<open>
  \<^verbatim>\<open>strings.ToLower(s)\<close> has two paths. When every byte of \<open>s\<close> is below \<^verbatim>\<open>utf8.RuneSelf\<close>
  (128), the letters A to Z are mapped to a to z and every other byte is kept. Otherwise
  the result is \<^verbatim>\<open>strings.Map(unicode.ToLower, s)\<close>, which decodes \<open>s\<close> as UTF-8 and
  lower-cases it rune by rune with the Unicode tables; this library function is the
  parameter \<open>mapLower\<close>.
\<close>

definition isASCII :: "char \<Rightarrow> bool" where
  "isASCII c = ((of_char c :: nat) < 128)"

definition isUpper :: "char \<Rightarrow> bool" where
  "isUpper c = (65 \<le> (of_char c :: nat) \<and> (of_char c :: nat) \<le> 90)"

definition toLowerByte :: "char \<Rightarrow> char" where
  "toLowerByte c = (if isUpper c then char_of ((of_char c :: nat) + 32) else c)"

definition ToLower :: "(string \<Rightarrow> string) \<Rightarrow> string \<Rightarrow> string" where
  "ToLower mapLower s = (if list_all isASCII s then map toLowerByte s else mapLower s)"

text \<open>\<^verbatim>\<open>strings.Trim(s, cutset)\<close>: all leading and trailing bytes contained in the cutset removed.\<close>

definition Trim :: "string \<Rightarrow> string \<Rightarrow> string" where
  "Trim s cutset =
     rev (dropWhile (\<lambda>c. c \<in> set cutset) (rev (dropWhile (\<lambda>c. c \<in> set cutset) s)))"

text \<open>
  \<^verbatim>\<open>strings.SplitN(s, sep, n)\<close> for a one-byte separator and \<open>n \<ge> 0\<close>: at most \<open>n\<close>
  substrings, the last one the unsplit remainder; \<open>n = 0\<close> gives the empty slice.
\<close>

fun SplitN :: "string \<Rightarrow> char \<Rightarrow> nat \<Rightarrow> string list" where
  "SplitN s sep 0 = []"
| "SplitN s sep (Suc 0) = [s]"
| "SplitN s sep (Suc (Suc n)) =
     (if sep \<in> set s
      then takeWhile (\<lambda>c. c \<noteq> sep) s # SplitN (tl (dropWhile (\<lambda>c. c \<noteq> sep) s)) sep (Suc n)
      else [s])"

text \<open>\<^verbatim>\<open>strings.HasPrefix(s, prefix)\<close>.\<close>

definition HasPrefix :: "string \<Rightarrow> string \<Rightarrow> bool" where
  "HasPrefix s p = (length p \<le> length s \<and> take (length p) s = p)"

section \<open>Package youtubedl: the format catalog\<close>

subsection \<open>Codec names\<close>

definition codecNameNormalizeMap :: "string \<rightharpoonup> string" where
  "codecNameNormalizeMap =
     map_of [(''none'', ''''), (''avc1'', ''h264''), (''mp4a'', ''aac''), (''mp4v'', ''h264'')]"

text \<open>
  \<open>normalizeCodecName\<close>. The first argument is the Unicode path of \<^verbatim>\<open>strings.ToLower\<close>
  (see \<open>ToLower\<close>), the second the argument of the source.
\<close>

definition normalizeCodecName :: "(string \<Rightarrow> string) \<Rightarrow> string \<Rightarrow> string" where
  "normalizeCodecName mapLower c0 =
     (let c1 = Trim c0 '' '';
          c2 = ToLower mapLower c1;
          p = SplitN c2 (CHR ''.'') 2;
          c3 = p ! 0
      in case codecNameNormalizeMap c3 of Some n \<Rightarrow> n | None \<Rightarrow> c3)"

text \<open>
  The normalization as the specification words it, over the lower-casing function and
  the set of bytes it strips from both ends: strip, lower-case, cut at the first dot, then
  replace the vendor tags (\<open>avc1\<close> and \<open>mp4v\<close> by \<open>h264\<close>, \<open>mp4a\<close> by \<open>aac\<close>) and \<open>none\<close> by the
  empty string.
\<close>

definition stripBoth :: "(char \<Rightarrow> bool) \<Rightarrow> string \<Rightarrow> string" where
  "stripBoth ws s = rev (dropWhile ws (rev (dropWhile ws s)))"

definition describedNormalize ::
  "(string \<Rightarrow> string) \<Rightarrow> (char \<Rightarrow> bool) \<Rightarrow> string \<Rightarrow> string" where
  "describedNormalize lower ws c =
     (let t = takeWhile (\<lambda>x. x \<noteq> CHR ''.'') (lower (stripBoth ws c))
      in if t = ''none'' then ''''
         else if t = ''avc1'' \<or> t = ''mp4v'' then ''h264''
         else if t = ''mp4a'' then ''aac''
         else t)"

text \<open>Only the space character, as the cutset \<^verbatim>\<open>" "\<close> of the source has it.\<close>

definition isSpaceByte :: "char \<Rightarrow> bool" where
  "isSpaceByte c = (c = CHR '' '')"

text \<open>
  ASCII white space in the usual sense (Go's \<^verbatim>\<open>unicode.IsSpace\<close> below 128): tab, line
  feed, vertical tab, form feed, carriage return and space.
\<close>

definition isWhitespace :: "char \<Rightarrow> bool" where
  "isWhitespace c = (c \<in> set [CHR 0x09, CHR 0x0A, CHR 0x0B, CHR 0x0C, CHR 0x0D, CHR '' ''])"

definition endsWithSpace :: "string \<Rightarrow> bool" where
  "endsWithSpace s = (s \<noteq> [] \<and> last s = CHR '' '')"

text \<open>The lookup in \<open>codecNameNormalizeMap\<close> with its default, as one function of the token.\<close>

definition aliasOf :: "string \<Rightarrow> string" where
  "aliasOf t =
     (if t = ''none'' then ''''
      else if t = ''avc1'' \<or> t = ''mp4v'' then ''h264''
      else if t = ''mp4a'' then ''aac''
      else t)"

text \<open>
  Three facts about lower-casing that the properties of the normalization rest on, at one
  string \<open>s\<close>: lower-casing commutes with stripping the spaces at both ends; the part
  before the first dot of a lower-cased string is not changed by lower-casing it again;
  lower-casing creates no space. On the ASCII path of \<open>ToLower\<close> they are proved below.
  On the Unicode path they are properties of \<^verbatim>\<open>strings.Map(unicode.ToLower, s)\<close>: it maps
  rune by rune, a space is a rune of its own and the image of no other rune, the dot
  likewise, and the lower-case image of a rune is its own lower-case image.
\<close>

definition lowerAt :: "(string \<Rightarrow> string) \<Rightarrow> string \<Rightarrow> bool" where
  "lowerAt mapLower s =
     (ToLower mapLower (stripBoth isSpaceByte s) = stripBoth isSpaceByte (ToLower mapLower s) \<and>
      ToLower mapLower (takeWhile (\<lambda>x. x \<noteq> CHR ''.'') (ToLower mapLower s))
        = takeWhile (\<lambda>x. x \<noteq> CHR ''.'') (ToLower mapLower s) \<and>
      (CHR '' '' \<in> set (ToLower mapLower s) \<longrightarrow> CHR '' '' \<in> set s))"

definition lowerLaws :: "(string \<Rightarrow> string) \<Rightarrow> bool" where
  "lowerLaws mapLower = (\<forall>s. lowerAt mapLower s)"

subsection \<open>Errors\<close>

text \<open>
  The error values: \<open>Error\<close> is the error type of the package (a message of the
  extraction tool), \<open>IOError\<close> an error of the operating system or of a reader,
  \<open>JSONError\<close> an error of \<^verbatim>\<open>json.Unmarshal\<close>, \<open>Errorf\<close> an error made with \<^verbatim>\<open>fmt.Errorf\<close>,
  \<open>ExitError\<close> what \<^verbatim>\<open>cmd.Wait\<close> returns. \<open>NilPanic\<close> is the run-time panic of a nil pointer
  dereference.
\<close>

datatype error =
    Error string
  | IOError string
  | JSONError string
  | Errorf string
  | ExitError string
  | NilPanic

subsection \<open>Info and Format\<close>

text \<open>
  The structs of the package. The type parameter \<open>'r\<close> stands for \<^verbatim>\<open>float64\<close>; its
  two operations the code uses (comparison with zero and addition) are fields of the
  record \<open>sys\<close> below. \<open>Formats\<close> is a slice of pointers: \<open>None\<close> is the nil pointer.
\<close>

record 'r Format =
  FormatID :: string
  Protocol :: string
  Ext :: string
  ACodec :: string
  VCodec :: string
  TBR :: 'r
  ABR :: 'r
  VBR :: 'r
  NormBR :: 'r
  NormACodec :: string
  NormVCodec :: string

record 'r Info =
  Artist :: string
  Uploader :: string
  Creator :: string
  Title :: string
  Description :: string
  Duration :: 'r
  Thumbnail :: string
  Formats :: "'r Format option list"
  ThumbnailBytes :: string
  rawJSON :: string

subsection \<open>The standard library and the operating system, as the package sees them\<close>

text \<open>
  What the package calls but does not define is a parameter of the model:
  \<^item> \<open>isZero\<close> and \<open>add\<close>: \<^verbatim>\<open>x == 0\<close> and \<^verbatim>\<open>x + y\<close> on \<^verbatim>\<open>float64\<close>;
  \<^item> \<open>Map_ToLower\<close>: \<^verbatim>\<open>strings.Map(unicode.ToLower, s)\<close>, the path \<^verbatim>\<open>strings.ToLower\<close> takes
    for a string with a byte outside ASCII;
  \<^item> \<open>json_Unmarshal\<close>: \<^verbatim>\<open>json.Unmarshal\<close> into a zero \<^verbatim>\<open>Info\<close>: an error or the decoded struct;
  \<^item> \<open>path_Join\<close>: \<^verbatim>\<open>path.Join\<close> of a directory and a file name;
  \<^item> \<open>ioutil_ReadDir\<close>: an error or the names of the directory's entries, in order;
  \<^item> \<open>open_file\<close>: \<^verbatim>\<open>os.Open\<close> of a non-empty name: an error, or the file, given by what
    \<^verbatim>\<open>ioutil.ReadAll\<close> will get from it (an error or its bytes);
  \<^item> \<open>ioutil_ReadFile\<close>: an error or the bytes of the file.
\<close>

record 'r sys =
  isZero :: "'r \<Rightarrow> bool"
  add :: "'r \<Rightarrow> 'r \<Rightarrow> 'r"
  Map_ToLower :: "string \<Rightarrow> string"
  json_Unmarshal :: "string \<Rightarrow> error + 'r Info"
  path_Join :: "string \<Rightarrow> string \<Rightarrow> string"
  ioutil_ReadDir :: "string \<Rightarrow> error + string list"
  open_file :: "string \<Rightarrow> error + (error + string)"
  ioutil_ReadFile :: "string \<Rightarrow> error + string"

text \<open>\<^verbatim>\<open>os.Open\<close>: the empty name is no file on any system (\<^verbatim>\<open>ENOENT\<close>).\<close>

definition os_Open :: "'r sys \<Rightarrow> string \<Rightarrow> error + (error + string)" where
  "os_Open s name =
     (if name = '''' then Inl (IOError ''open : no such file or directory'')
      else open_file s name)"

text \<open>
  \<^verbatim>\<open>path.Ext\<close>: the loop runs from the last byte backwards, stops at a slash, and returns
  the path from the first dot it meets. The first argument is the part of the path not
  yet visited, reversed; the second is the part behind it.
\<close>

fun path_Ext_loop :: "string \<Rightarrow> string \<Rightarrow> string" where
  "path_Ext_loop [] acc = ''''"
| "path_Ext_loop (c # cs) acc =
     (if c = CHR ''/'' then ''''
      else if c = CHR ''.'' then c # acc
      else path_Ext_loop cs (c # acc))"

definition path_Ext :: "string \<Rightarrow> string" where
  "path_Ext p = path_Ext_loop (rev p) ''''"

subsection \<open>Codecs guessed from the extension\<close>

text \<open>\<open>codecFromExt\<close>; the first argument is the Unicode path of \<^verbatim>\<open>strings.ToLower\<close>.\<close>

definition codecFromExt :: "(string \<Rightarrow> string) \<Rightarrow> string \<Rightarrow> string \<times> string" where
  "codecFromExt mapLower ext =
     (let e = ToLower mapLower ext
      in if e = ''mp3'' then (''mp3'', '''')
         else if e = ''mp4'' then (''aac'', ''h264'')
         else if e = ''flv'' then (''aac'', ''h264'')
         else ('''', ''''))"

text \<open>
  The table as the specification words it: keyed by the extension itself.
\<close>

definition describedExtTable :: "string \<Rightarrow> string \<times> string" where
  "describedExtTable ext =
     (if ext = ''mp3'' then (''mp3'', '''')
      else if ext = ''mp4'' \<or> ext = ''flv'' then (''aac'', ''h264'')
      else ('''', ''''))"

subsection \<open>parseInfo\<close>

text \<open>The body of the loop over the formats: the derived fields of one format.\<close>

definition parseInfo_format :: "'r sys \<Rightarrow> 'r Format \<Rightarrow> 'r Format" where
  "parseInfo_format s f0 =
     (let f1 = f0\<lparr>NormACodec := normalizeCodecName (Map_ToLower s) (ACodec f0)\<rparr>;
          f2 = f1\<lparr>NormVCodec := normalizeCodecName (Map_ToLower s) (VCodec f1)\<rparr>;
          (extACodec, extVCodec) = codecFromExt (Map_ToLower s) (Ext f2);
          f3 = (if ACodec f2 = '''' then f2\<lparr>NormACodec := extACodec\<rparr> else f2);
          f4 = (if VCodec f3 = '''' then f3\<lparr>NormVCodec := extVCodec\<rparr> else f3)
      in if \<not> isZero s (TBR f4) then f4\<lparr>NormBR := TBR f4\<rparr>
         else f4\<lparr>NormBR := add s (ABR f4) (VBR f4)\<rparr>)"

text \<open>The loop: it panics at the first nil pointer of the slice.\<close>

fun parseInfo_loop :: "'r sys \<Rightarrow> 'r Format option list \<Rightarrow> error + 'r Format option list" where
  "parseInfo_loop s [] = Inr []"
| "parseInfo_loop s (None # fs) = Inl NilPanic"
| "parseInfo_loop s (Some f # fs) =
     (case parseInfo_loop s fs of
        Inl err \<Rightarrow> Inl err
      | Inr fs' \<Rightarrow> Inr (Some (parseInfo_format s f) # fs'))"

text \<open>
  The reader is given by what \<^verbatim>\<open>ioutil.ReadAll\<close> gets from it. \<^verbatim>\<open>json.Unmarshal\<close> cannot
  reach the unexported \<open>rawJSON\<close> nor \<open>ThumbnailBytes\<close> (tagged \<^verbatim>\<open>json:"-"\<close>): the first
  keeps the bytes read, the second stays empty.
\<close>

definition parseInfo :: "'r sys \<Rightarrow> error + string \<Rightarrow> error + 'r Info" where
  "parseInfo s r =
     (case r of
        Inl err \<Rightarrow> Inl err
      | Inr raw \<Rightarrow>
          (case json_Unmarshal s raw of
             Inl err \<Rightarrow> Inl err
           | Inr d \<Rightarrow>
               (let i = d\<lparr>ThumbnailBytes := [], rawJSON := raw\<rparr>
                in case parseInfo_loop s (Formats i) of
                     Inl err \<Rightarrow> Inl err
                   | Inr fs \<Rightarrow> Inr (i\<lparr>Formats := fs\<rparr>))))"

subsection \<open>NewFromPath\<close>

text \<open>
  The loop over the directory entries: the pair is \<open>(infoJSONPath, thumbnailPath)\<close>; a
  later entry with the same kind of extension replaces an earlier one.
\<close>

fun NewFromPath_loop :: "'r sys \<Rightarrow> string \<Rightarrow> string list \<Rightarrow> string \<times> string \<Rightarrow> string \<times> string" where
  "NewFromPath_loop s infoPath [] (infoJSONPath, thumbnailPath) = (infoJSONPath, thumbnailPath)"
| "NewFromPath_loop s infoPath (name # files) (infoJSONPath, thumbnailPath) =
     (let ext = path_Ext name
      in if ext = ''.json''
         then NewFromPath_loop s infoPath files (path_Join s infoPath name, thumbnailPath)
         else if ext = ''.png'' \<or> ext = ''.jpg'' \<or> ext = ''.jpeg''
         then NewFromPath_loop s infoPath files (infoJSONPath, path_Join s infoPath name)
         else NewFromPath_loop s infoPath files (infoJSONPath, thumbnailPath))"

definition NewFromPath :: "'r sys \<Rightarrow> string \<Rightarrow> error + 'r Info" where
  "NewFromPath s infoPath =
     (case ioutil_ReadDir s infoPath of
        Inl err \<Rightarrow> Inl err
      | Inr files \<Rightarrow>
          (let (infoJSONPath, thumbnailPath) = NewFromPath_loop s infoPath files ('''', '''')
           in if infoPath = '''' then Inl (Errorf ''no info json found'')
              else case os_Open s infoJSONPath of
                     Inl err \<Rightarrow> Inl err
                   | Inr file \<Rightarrow>
                       (case parseInfo s file of
                          Inl err \<Rightarrow> Inl err
                        | Inr i \<Rightarrow>
                            if thumbnailPath \<noteq> ''''
                            then (case ioutil_ReadFile s thumbnailPath of
                                    Inl err \<Rightarrow> Inl (Errorf ''failed to read thumbnail'')
                                  | Inr bytes \<Rightarrow> Inr (i\<lparr>ThumbnailBytes := bytes\<rparr>))
                            else Inr i)))"

subsection \<open>NewFromURL\<close>

text \<open>
  One run of the extraction tool, as \<open>NewFromURL\<close> observes it: the temporary directory
  (\<open>''''\<close> when it could not be made: the source drops that error), whether the two
  pipes and the start fail, the lines the scanner reads from the diagnostic stream, and
  what waiting for the exit returns.
\<close>

record proc =
  tempDir :: string
  stderrPipe :: "error option"
  stdinPipe :: "error option"
  start :: "error option"
  stderrLines :: "string list"
  wait :: "error option"

text \<open>What \<open>NewFromURL\<close> does to the outside, in order.\<close>

datatype action =
    TempDir
  | Command "string list"
  | SetDir string
  | StderrPipe
  | StdinPipe
  | Start
  | WriteStdin string
  | CloseStdin
  | ScanLine string
  | Wait
  | ReadPath string
  | RemoveAll string

definition errorPrefix :: string where
  "errorPrefix = ''ERROR: ''"

definition youtubedlArgs :: "string list" where
  "youtubedlArgs =
     [''youtube-dl'', ''--no-call-home'', ''--no-cache-dir'', ''--skip-download'',
      ''--write-info-json'', ''--write-thumbnail'', ''--batch-file'', ''-'']"

text \<open>
  The loop over the diagnostic lines: the error found, if any, and the lines read.
\<close>

fun scanStderr :: "string list \<Rightarrow> string option \<times> string list" where
  "scanStderr [] = (None, [])"
| "scanStderr (line # rest) =
     (if HasPrefix line errorPrefix
      then (Some (drop (length errorPrefix) line), [line])
      else (case scanStderr rest of (r, seen) \<Rightarrow> (r, line # seen)))"

text \<open>
  The result and the actions. The removal of the temporary directory is deferred: it is
  the last action on every path behind the \<^verbatim>\<open>defer\<close>. (The writer that receives the
  standard output of the tool is left out: nothing is read back from it.)
\<close>

definition NewFromURL :: "'r sys \<Rightarrow> proc \<Rightarrow> string \<Rightarrow> (error + 'r Info) \<times> action list" where
  "NewFromURL s p url =
     (let tempPath = tempDir p;
          t0 = [TempDir, Command youtubedlArgs, SetDir tempPath, StderrPipe]
      in case stderrPipe p of
           Some err \<Rightarrow> (Inl err, t0 @ [RemoveAll tempPath])
         | None \<Rightarrow>
        (case stdinPipe p of
           Some err \<Rightarrow> (Inl err, t0 @ [StdinPipe, RemoveAll tempPath])
         | None \<Rightarrow>
        (case start p of
           Some err \<Rightarrow> (Inl err, t0 @ [StdinPipe, Start, RemoveAll tempPath])
         | None \<Rightarrow>
        (let t1 = t0 @ [StdinPipe, Start, WriteStdin (url @ [CHR 0x0A]), CloseStdin]
         in case scanStderr (stderrLines p) of
              (Some msg, seen) \<Rightarrow>
                (Inl (Error msg), t1 @ map ScanLine seen @ [RemoveAll tempPath])
            | (None, seen) \<Rightarrow>
                (case wait p of
                   Some err \<Rightarrow> (Inl err, t1 @ map ScanLine seen @ [Wait, RemoveAll tempPath])
                 | None \<Rightarrow>
                     (NewFromPath s tempPath,
                      t1 @ map ScanLine seen @ [Wait, ReadPath tempPath, RemoveAll tempPath]))))))"

text \<open>The command lines and the bytes written to the standard input, read off the actions.\<close>

fun commandLines :: "action list \<Rightarrow> string list list" where
  "commandLines [] = []"
| "commandLines (Command args # as) = args # commandLines as"
| "commandLines (a # as) = commandLines as"

fun stdinWrites :: "action list \<Rightarrow> string list" where
  "stdinWrites [] = []"
| "stdinWrites (WriteStdin bytes # as) = bytes # stdinWrites as"
| "stdinWrites (a # as) = stdinWrites as"

section \<open>Package time: the one layout the feed parses and the one it prints\<close>

text \<open>
  \<^verbatim>\<open>time.Parse("20060102", value)\<close> and \<^verbatim>\<open>Time.Format(time.RFC1123Z)\<close> of Go's standard
  library, written out for these two layouts. The layout \<^verbatim>\<open>"20060102"\<close> is the chunks
  \<^verbatim>\<open>stdLongYear\<close>, \<^verbatim>\<open>stdZeroMonth\<close> and \<^verbatim>\<open>stdZeroDay\<close> with nothing between them.
\<close>

definition isDigit :: "char \<Rightarrow> bool" where
  "isDigit c = (48 \<le> (of_char c :: nat) \<and> (of_char c :: nat) \<le> 57)"

definition digitVal :: "char \<Rightarrow> int" where
  "digitVal c = int (of_char c) - 48"

text \<open>\<^verbatim>\<open>isDigit(s, i)\<close> of package time: false behind the end of the string.\<close>

definition isDigitAt :: "string \<Rightarrow> nat \<Rightarrow> bool" where
  "isDigitAt s i = (i < length s \<and> isDigit (s ! i))"

text \<open>
  \<^verbatim>\<open>leadingInt\<close>: the digits in front and the rest. (Its overflow check needs more than
  eighteen digits; \<open>atoi\<close> is called with four bytes.)
\<close>

fun leadingInt :: "string \<Rightarrow> int \<Rightarrow> int \<times> string" where
  "leadingInt [] x = (x, [])"
| "leadingInt (c # cs) x =
     (if isDigit c then leadingInt cs (x * 10 + digitVal c) else (x, c # cs))"

definition atoi :: "string \<Rightarrow> int option" where
  "atoi s0 =
     (let signed = (s0 \<noteq> [] \<and> (hd s0 = CHR ''-'' \<or> hd s0 = CHR ''+''));
          neg = (signed \<and> hd s0 = CHR ''-'');
          s = (if signed then tl s0 else s0);
          (q, rem) = leadingInt s 0
      in if rem \<noteq> [] then None else Some (if neg then - q else q))"

text \<open>\<^verbatim>\<open>getnum(s, fixed)\<close>: one or two digits, two when \<open>fixed\<close>.\<close>

definition getnum :: "string \<Rightarrow> bool \<Rightarrow> (int \<times> string) option" where
  "getnum s fixed =
     (if \<not> isDigitAt s 0 then None
      else if \<not> isDigitAt s 1
      then (if fixed then None else Some (digitVal (s ! 0), drop 1 s))
      else Some (digitVal (s ! 0) * 10 + digitVal (s ! 1), drop 2 s))"

definition isLeap :: "int \<Rightarrow> bool" where
  "isLeap year = (year mod 4 = 0 \<and> (year mod 100 \<noteq> 0 \<or> year mod 400 = 0))"

definition daysIn :: "int \<Rightarrow> int \<Rightarrow> int" where
  "daysIn m year =
     (if m = 2 \<and> isLeap year then 29
      else [31, 28, 31, 30, 31, 30, 31, 31, 30, 31, 30, 31] ! nat (m - 1))"

text \<open>A calendar date: year, month, day. Parsed without a zone, the time is midnight UTC.\<close>

type_synonym date = "int \<times> int \<times> int"

text \<open>
  \<open>Parse\<close> for the layout \<^verbatim>\<open>"20060102"\<close>: the year needs four bytes, the first a digit, and
  all four must be digits; month and day are two digits each, the month from 1 to 12;
  nothing may follow; at the end the day is checked against the month's length. Any
  failure is \<open>None\<close> (the caller only tests whether there was an error).
\<close>

definition Parse_20060102 :: "string \<Rightarrow> date option" where
  "Parse_20060102 value =
     (if length value < 4 \<or> \<not> isDigitAt value 0 then None
      else case atoi (take 4 value) of
        None \<Rightarrow> None
      | Some year \<Rightarrow>
         (case getnum (drop 4 value) True of
            None \<Rightarrow> None
          | Some (month, value2) \<Rightarrow>
             if month \<le> 0 \<or> 12 < month then None
             else case getnum value2 True of
               None \<Rightarrow> None
             | Some (day, value3) \<Rightarrow>
                if value3 \<noteq> [] then None
                else if day < 1 \<or> day > daysIn month year then None
                else Some (year, month, day)))"

text \<open>
  The weekday of a date, Sunday being 0, by the count of days since 1 January 1970 (a
  Thursday) in the proleptic Gregorian calendar, which is the calendar of \<^verbatim>\<open>time.Time\<close>.
\<close>

definition daysSinceEpoch :: "date \<Rightarrow> int" where
  "daysSinceEpoch d =
     (case d of (year, month, day) \<Rightarrow>
       (let y = (if month \<le> 2 then year - 1 else year);
            era = y div 400;
            yoe = y - era * 400;
            mp = (if month > 2 then month - 3 else month + 9);
            doy = (153 * mp + 2) div 5 + day - 1;
            doe = yoe * 365 + yoe div 4 - yoe div 100 + doy
        in era * 146097 + doe - 719468))"

definition Weekday :: "date \<Rightarrow> nat" where
  "Weekday d = nat ((daysSinceEpoch d + 4) mod 7)"

definition digitChar :: "int \<Rightarrow> char" where
  "digitChar d = char_of (48 + nat d)"

text \<open>\<^verbatim>\<open>appendInt(b, x, width)\<close> for the two widths used and values that fit them.\<close>

definition twoDigits :: "int \<Rightarrow> string" where
  "twoDigits x = [digitChar (x div 10 mod 10), digitChar (x mod 10)]"

definition fourDigits :: "int \<Rightarrow> string" where
  "fourDigits x =
     [digitChar (x div 1000 mod 10), digitChar (x div 100 mod 10),
      digitChar (x div 10 mod 10), digitChar (x mod 10)]"

text \<open>
  \<^verbatim>\<open>Format(time.RFC1123Z)\<close>, the layout \<^verbatim>\<open>"Mon, 02 Jan 2006 15:04:05 -0700"\<close>, of midnight
  UTC on the date.
\<close>

definition Format_RFC1123Z :: "date \<Rightarrow> string" where
  "Format_RFC1123Z d =
     (case d of (year, month, day) \<Rightarrow>
        [''Sun'', ''Mon'', ''Tue'', ''Wed'', ''Thu'', ''Fri'', ''Sat''] ! Weekday d
        @ '', '' @ twoDigits day @ '' ''
        @ [''Jan'', ''Feb'', ''Mar'', ''Apr'', ''May'', ''Jun'',
           ''Jul'', ''Aug'', ''Sep'', ''Oct'', ''Nov'', ''Dec''] ! nat (month - 1)
        @ '' '' @ fourDigits year @ '' 00:00:00 +0000'')"

text \<open>
  The date token as the specification words it: eight digits, year, month and day
  without separators, that name a day of the calendar.
\<close>

definition decimal :: "string \<Rightarrow> int" where
  "decimal s = foldl (\<lambda>x c. 10 * x + digitVal c) 0 s"

definition tokenDate :: "string \<Rightarrow> date" where
  "tokenDate s = (decimal (take 4 s), decimal (take 2 (drop 4 s)), decimal (drop 6 s))"

definition isDateToken :: "string \<Rightarrow> bool" where
  "isDateToken s =
     (length s = 8 \<and> list_all isDigit s \<and>
      (case tokenDate s of (year, month, day) \<Rightarrow>
         1 \<le> month \<and> month \<le> 12 \<and> 1 \<le> day \<and> day \<le> daysIn month year))"

section \<open>Package ydls: the feed\<close>

subsection \<open>The types \<open>RSSFromYDLSInfo\<close> works on\<close>

text \<open>
  \<open>rss.go\<close> reads a \<^verbatim>\<open>youtubedl.Info\<close> with entries, a type tag, an id, a page URL and an
  upload date: fields the struct of the package above does not have, so the declaration it
  was compiled against is not among the sources. The type below has the fields that
  \<open>rss.go\<close> reads and the descriptive strings of the specification's Metadata; the
  selectors carry the prefix \<open>info_\<close>.
\<close>

datatype youtubedl_Info = youtubedl_Info
  (info_ID: string)
  (info_Type: string)
  (info_Title: string)
  (info_Artist: string)
  (info_Uploader: string)
  (info_Creator: string)
  (info_Description: string)
  (info_Thumbnail: string)
  (info_WebpageURL: string)
  (info_UploadDate: string)
  (info_Entries: "youtubedl_Info list")

text \<open>The fields of \<^verbatim>\<open>url.URL\<close> that the feed sets or that a base URL has.\<close>

record URL =
  Scheme :: string
  Host :: string
  Path :: string
  RawQuery :: string
  Fragment :: string

definition emptyURL :: URL where
  "emptyURL = \<lparr>Scheme = '''', Host = '''', Path = '''', RawQuery = '''', Fragment = ''''\<rparr>"

text \<open>
  The download options and the output format they point to, as \<open>rss.go\<close> and the tests
  use them (\<open>ydls.go\<close>, which declares them, is not among the sources). \<open>Format\<close> and
  \<open>BaseURL\<close> are pointers: \<open>None\<close> is nil. The selectors carry the prefixes \<open>opt_\<close> and
  \<open>fmt_\<close>. (The time range of the options is left out: the feed does not read it.)
\<close>

datatype DownloadOptions = DownloadOptions
  (opt_MediaRawURL: string)
  (opt_Format: "ydls_Format option")
  (opt_Codecs: "string list")
  (opt_BaseURL: "URL option")
  (opt_Items: int)
and ydls_Format = ydls_Format
  (fmt_Name: string)
  (fmt_Ext: string)
  (fmt_MIMEType: string)
  (fmt_EnclosureDownloadOptions: DownloadOptions)

text \<open>What \<open>metadataFromYoutubeDLInfo\<close> returns, as far as the feed reads it.\<close>

record Metadata =
  md_Title :: string
  md_Artist :: string
  md_Comment :: string

text \<open>The structs of package \<open>rss\<close> (not among the sources), with the fields the feed sets.\<close>

record Enclosure =
  enc_URL :: string
  enc_Type :: string

record Item =
  item_GUID :: string
  item_PubDate :: string
  item_ItunesAuthor :: string
  item_ItunesImage :: string
  item_Link :: string
  item_Title :: string
  item_Description :: string
  item_Enclosure :: Enclosure

record Image =
  image_URL :: string
  image_Title :: string
  image_Link :: string

record Channel =
  chan_Title :: string
  chan_Description :: string
  chan_Link :: string
  chan_Image :: "Image option"
  chan_ItunesImage :: string
  chan_Items :: "Item list"

record RSS =
  rss_Version :: string
  rss_XMLNSItunes :: string
  rss_Channel :: Channel

text \<open>
  What \<open>rss.go\<close> calls and the sources do not define is a parameter:
  \<open>metadataFromYoutubeDLInfo\<close> and the method \<open>URL\<close> of the download options (both of
  \<open>ydls.go\<close>), \<^verbatim>\<open>ResolveReference\<close> and \<^verbatim>\<open>String\<close> of \<^verbatim>\<open>url.URL\<close>, and the constant
  \<^verbatim>\<open>rss.XMLNSItunes\<close>.
\<close>

record feed_env =
  metadataFromYoutubeDLInfo :: "youtubedl_Info \<Rightarrow> Metadata"
  DownloadOptions_URL :: "DownloadOptions \<Rightarrow> URL"
  ResolveReference :: "URL \<Rightarrow> URL \<Rightarrow> URL"
  URL_String :: "URL \<Rightarrow> string"
  XMLNSItunes :: string

text \<open>
  Modelled from the spec: \<open>firstNonEmpty\<close> (defined in \<open>ydls.go\<close>, which is not among the
  sources): the first non-empty value among the candidates in their order of priority,
  the empty string when there is none.
\<close>

fun firstNonEmpty :: "string list \<Rightarrow> string" where
  "firstNonEmpty [] = ''''"
| "firstNonEmpty (s # ss) = (if s \<noteq> '''' then s else firstNonEmpty ss)"

subsection \<open>RSSFromYDLSInfo\<close>

text \<open>An entry that the loop skips: a nested playlist.\<close>

definition skipped :: "youtubedl_Info \<Rightarrow> bool" where
  "skipped entry = (info_Type entry = ''playlist'' \<or> info_Type entry = ''multi_video'')"

text \<open>The publish date of an entry, as the loop body computes it.\<close>

definition pubDateOf :: "youtubedl_Info \<Rightarrow> string" where
  "pubDateOf entry =
     (if info_UploadDate entry \<noteq> ''''
      then (case Parse_20060102 (info_UploadDate entry) of
              Some d \<Rightarrow> Format_RFC1123Z d
            | None \<Rightarrow> '''')
      else '''')"

text \<open>
  The body of the loop for an entry that is not skipped: the item appended. The
  arguments are the values the function has computed before the loop.
\<close>

definition RSS_item ::
  "feed_env \<Rightarrow> URL \<Rightarrow> URL \<Rightarrow> DownloadOptions \<Rightarrow> ydls_Format \<Rightarrow> youtubedl_Info \<Rightarrow> Item" where
  "RSS_item env baseURL feedURL enclosureDownloadOptions enclosureFormat entry =
     (let GUID = URL_String env
                   (ResolveReference env feedURL (emptyURL\<lparr>Fragment := info_ID entry\<rparr>));
          mediaBaseURL = ResolveReference env baseURL
                           (emptyURL\<lparr>Path := ''media.'' @ fmt_Ext enclosureFormat\<rparr>);
          entryDownloadOptions =
            DownloadOptions
              (info_WebpageURL entry)
              (opt_Format enclosureDownloadOptions)
              (opt_Codecs enclosureDownloadOptions)
              (Some mediaBaseURL)
              (opt_Items enclosureDownloadOptions);
          enclosure = \<lparr>enc_URL = URL_String env (DownloadOptions_URL env entryDownloadOptions),
                       enc_Type = fmt_MIMEType enclosureFormat\<rparr>;
          pubDate = pubDateOf entry;
          entryMetadata = metadataFromYoutubeDLInfo env entry
      in \<lparr>item_GUID = GUID,
          item_PubDate = pubDate,
          item_ItunesAuthor = md_Artist entryMetadata,
          item_ItunesImage = info_Thumbnail entry,
          item_Link = info_WebpageURL entry,
          item_Title = md_Title entryMetadata,
          item_Description = md_Comment entryMetadata,
          item_Enclosure = enclosure\<rparr>)"

text \<open>The loop over the entries; the last argument is \<open>channel.Items\<close> so far.\<close>

fun RSS_loop ::
  "feed_env \<Rightarrow> URL \<Rightarrow> URL \<Rightarrow> DownloadOptions \<Rightarrow> ydls_Format \<Rightarrow> youtubedl_Info list
     \<Rightarrow> Item list \<Rightarrow> Item list" where
  "RSS_loop env baseURL feedURL edo ef [] items = items"
| "RSS_loop env baseURL feedURL edo ef (entry # entries) items =
     (if info_Type entry = ''playlist'' \<or> info_Type entry = ''multi_video''
      then RSS_loop env baseURL feedURL edo ef entries items
      else RSS_loop env baseURL feedURL edo ef entries
             (items @ [RSS_item env baseURL feedURL edo ef entry]))"

text \<open>
  The function. \<open>options.Format\<close> and the format of its enclosure options are
  dereferenced before the loop: a nil pointer there is a panic.
\<close>

definition RSSFromYDLSInfo ::
  "feed_env \<Rightarrow> DownloadOptions \<Rightarrow> youtubedl_Info \<Rightarrow> string \<Rightarrow> error + RSS" where
  "RSSFromYDLSInfo env options info linkIconRawURL =
     (case opt_Format options of
        None \<Rightarrow> Inl NilPanic
      | Some format \<Rightarrow>
         (let enclosureDownloadOptions = fmt_EnclosureDownloadOptions format;
              metadata = metadataFromYoutubeDLInfo env info;
              baseURL = (case opt_BaseURL options of None \<Rightarrow> emptyURL | Some u \<Rightarrow> u)
          in case opt_Format enclosureDownloadOptions of
               None \<Rightarrow> Inl NilPanic
             | Some enclosureFormat \<Rightarrow>
                (let feedURL = ResolveReference env baseURL
                       (emptyURL\<lparr>Path := fmt_Name enclosureFormat @ ''/'' @ info_WebpageURL info\<rparr>);
                     channel0 =
                       \<lparr>chan_Title = firstNonEmpty [md_Title metadata, md_Artist metadata],
                        chan_Description = md_Comment metadata,
                        chan_Link = info_WebpageURL info,
                        chan_Image = None,
                        chan_ItunesImage = '''',
                        chan_Items = []\<rparr>;
                     thumbnail = firstNonEmpty [info_Thumbnail info, linkIconRawURL];
                     channel1 =
                       (if thumbnail \<noteq> ''''
                        then channel0
                          \<lparr>chan_Image := Some \<lparr>image_URL = thumbnail,
                                               image_Title = info_Title info,
                                               image_Link = info_WebpageURL info\<rparr>,
                           chan_ItunesImage := thumbnail\<rparr>
                        else channel0);
                     channel2 = channel1
                       \<lparr>chan_Items := RSS_loop env baseURL feedURL enclosureDownloadOptions
                                        enclosureFormat (info_Entries info) (chan_Items channel1)\<rparr>
                 in Inr \<lparr>rss_Version = ''2.0'',
                         rss_XMLNSItunes = XMLNSItunes env,
                         rss_Channel = channel2\<rparr>)))"

text \<open>The items of a result; none when the call panicked.\<close>

definition itemsOf :: "error + RSS \<Rightarrow> Item list" where
  "itemsOf r = (case r of Inl err \<Rightarrow> [] | Inr feed \<Rightarrow> chan_Items (rss_Channel feed))"

text \<open>The same options with another item count.\<close>

definition withItems :: "DownloadOptions \<Rightarrow> int \<Rightarrow> DownloadOptions" where
  "withItems options n =
     DownloadOptions (opt_MediaRawURL options) (opt_Format options) (opt_Codecs options)
       (opt_BaseURL options) n"

section \<open>Package ydls: the negotiator\<close>

text \<open>The media kinds, by the names \<open>ydls_test.go\<close> uses for them.\<close>

datatype mediaType = MediaAudio | MediaVideo

text \<open>The normalized codec of a candidate for the requested media kind.\<close>

definition mediaCodec :: "mediaType \<Rightarrow> 'r Format \<Rightarrow> string" where
  "mediaCodec media f = (case media of MediaAudio \<Rightarrow> NormACodec f | MediaVideo \<Rightarrow> NormVCodec f)"

text \<open>
  Modelled from the spec: \<open>findYDLFormat\<close> (defined in \<open>ydls.go\<close>, which is not among the
  sources; only its test is). The specification's selection: with a non-empty preference
  list, preferences in the outer loop and candidates in the inner one, the first candidate
  whose normalized codec of the requested kind equals the preferred codec, whose protocol
  is usable and whose codec of that kind is not empty; with an empty list the first
  candidate with a non-empty codec of the requested kind; nothing found otherwise. Which
  protocols are usable the specification does not say: the predicate is a parameter. The
  preference set is the list of its members in order of priority.
\<close>

definition matchesCodec :: "(string \<Rightarrow> bool) \<Rightarrow> mediaType \<Rightarrow> string \<Rightarrow> 'r Format \<Rightarrow> bool" where
  "matchesCodec usable media codec f =
     (mediaCodec media f = codec \<and> usable (Protocol f) \<and> mediaCodec media f \<noteq> '''')"

fun findPreferred ::
  "(string \<Rightarrow> bool) \<Rightarrow> 'r Format list \<Rightarrow> mediaType \<Rightarrow> string list \<Rightarrow> 'r Format option" where
  "findPreferred usable formats media [] = None"
| "findPreferred usable formats media (codec # codecs) =
     (case find (matchesCodec usable media codec) formats of
        Some f \<Rightarrow> Some f
      | None \<Rightarrow> findPreferred usable formats media codecs)"

definition findYDLFormat ::
  "(string \<Rightarrow> bool) \<Rightarrow> 'r Format list \<Rightarrow> mediaType \<Rightarrow> string list \<Rightarrow> 'r Format option" where
  "findYDLFormat usable formats media codecs =
     (if codecs \<noteq> [] then findPreferred usable formats media codecs
      else find (\<lambda>f. mediaCodec media f \<noteq> '''') formats)"

section \<open>Example inputs\<close>

text \<open>
  A small system to evaluate the package on: \<^verbatim>\<open>float64\<close> values are whole numbers, the
  decoder knows three documents, and the file system has two directories made by the
  extraction tool, one with the metadata file and a thumbnail, one with neither.
\<close>

definition decodedFormat :: "string \<Rightarrow> string \<Rightarrow> string \<Rightarrow> string \<Rightarrow> int \<Rightarrow> int Format" where
  "decodedFormat fid ext acodec vcodec tbr =
     \<lparr>FormatID = fid, Protocol = ''http'', Ext = ext, ACodec = acodec, VCodec = vcodec,
      TBR = tbr, ABR = 0, VBR = 0, NormBR = 0, NormACodec = '''', NormVCodec = ''''\<rparr>"

definition decodedInfo :: "int Format option list \<Rightarrow> int Info" where
  "decodedInfo fs =
     \<lparr>Artist = '''', Uploader = '''', Creator = '''', Title = '''', Description = '''',
      Duration = 0, Thumbnail = '''', Formats = fs, ThumbnailBytes = '''', rawJSON = ''''\<rparr>"

definition upperExtJSON :: string where
  "upperExtJSON = ''{\"formats\":[{\"format_id\":\"a\",\"protocol\":\"http\",\"ext\":\"MP3\"}]}''"

definition noneCodecJSON :: string where
  "noneCodecJSON =
     ''{\"formats\":[{\"format_id\":\"18\",\"protocol\":\"http\",\"ext\":\"mp4\",\"acodec\":\"none\",\"tbr\":96}]}''"

definition nullFormatJSON :: string where
  "nullFormatJSON = ''{\"formats\":[null]}''"

text \<open>
  A Unicode path of \<^verbatim>\<open>strings.ToLower\<close> for the examples: it lower-cases the ASCII letters
  and keeps every other byte. (The library's also lower-cases the letters outside ASCII;
  \<open>ToLower\<close> takes this path only for a string with a byte outside ASCII.)
\<close>

definition bytewiseLower :: "string \<Rightarrow> string" where
  "bytewiseLower s = map toLowerByte s"

definition exampleUnmarshal :: "string \<Rightarrow> error + int Info" where
  "exampleUnmarshal raw =
     (if raw = upperExtJSON then Inr (decodedInfo [Some (decodedFormat ''a'' ''MP3'' '''' '''' 0)])
      else if raw = noneCodecJSON then Inr (decodedInfo [Some (decodedFormat ''18'' ''mp4'' ''none'' '''' 96)])
      else if raw = nullFormatJSON then Inr (decodedInfo [None])
      else Inl (JSONError ''unexpected end of JSON input''))"

definition exampleSys :: "int sys" where
  "exampleSys =
     \<lparr>isZero = (\<lambda>x. x = 0),
      add = (\<lambda>x y. x + y),
      Map_ToLower = bytewiseLower,
      json_Unmarshal = exampleUnmarshal,
      path_Join = (\<lambda>dir name. dir @ ''/'' @ name),
      ioutil_ReadDir = (\<lambda>p.
        if p = ''/tmp/ydls-youtubedl1'' then Inr [''clip.info.json'', ''clip.jpg'']
        else if p = ''/tmp/ydls-youtubedl2'' then Inr [''clip.txt'', ''json'']
        else Inl (IOError ''no such file or directory'')),
      open_file = (\<lambda>p.
        if p = ''/tmp/ydls-youtubedl1/clip.info.json'' then Inr (Inr noneCodecJSON)
        else Inl (IOError ''no such file or directory'')),
      ioutil_ReadFile = (\<lambda>p.
        if p = ''/tmp/ydls-youtubedl1/clip.jpg'' then Inr ''JFIF''
        else Inl (IOError ''no such file or directory''))\<rparr>"

text \<open>Two runs of the extraction tool: one that reports an error, one that succeeds.\<close>

definition failingRun :: proc where
  "failingRun =
     \<lparr>tempDir = ''/tmp/ydls-youtubedl2'', stderrPipe = None, stdinPipe = None, start = None,
      stderrLines = [''WARNING: falling back'', ''ERROR: Unsupported URL: x'', ''ERROR: second''],
      wait = Some (ExitError ''exit status 1'')\<rparr>"

definition cleanRun :: proc where
  "cleanRun =
     \<lparr>tempDir = ''/tmp/ydls-youtubedl1'', stderrPipe = None, stdinPipe = None, start = None,
      stderrLines = [''WARNING: falling back''],
      wait = None\<rparr>"

text \<open>What \<open>parseInfo\<close> makes of the first two documents.\<close>

definition upperExtParsed :: "int Info" where
  "upperExtParsed =
     (decodedInfo [Some ((decodedFormat ''a'' ''MP3'' '''' '''' 0)\<lparr>NormACodec := ''mp3''\<rparr>)])
       \<lparr>rawJSON := upperExtJSON\<rparr>"

definition noneCodecParsed :: "int Info" where
  "noneCodecParsed =
     (decodedInfo [Some ((decodedFormat ''18'' ''mp4'' ''none'' '''' 96)
        \<lparr>NormBR := 96, NormACodec := '''', NormVCodec := ''h264''\<rparr>)])
       \<lparr>rawJSON := noneCodecJSON\<rparr>"

text \<open>
  A feed environment in the manner of the real one (URLs are glued from their parts), a
  playlist with two tracks around a nested playlist, and options that ask for one item.
\<close>

definition exampleEnv :: feed_env where
  "exampleEnv =
     \<lparr>metadataFromYoutubeDLInfo = (\<lambda>i.
        \<lparr>md_Title = info_Title i,
         md_Artist = firstNonEmpty [info_Artist i, info_Creator i, info_Uploader i],
         md_Comment = info_Description i\<rparr>),
      DownloadOptions_URL = (\<lambda>opts.
        (case opt_BaseURL opts of None \<Rightarrow> emptyURL | Some b \<Rightarrow> b)
          \<lparr>RawQuery := ''url='' @ opt_MediaRawURL opts\<rparr>),
      ResolveReference = (\<lambda>base ref.
        if Path ref \<noteq> '''' then base\<lparr>Path := ''/'' @ Path ref, Fragment := Fragment ref\<rparr>
        else base\<lparr>Fragment := Fragment ref\<rparr>),
      URL_String = (\<lambda>u.
        Scheme u @ ''://'' @ Host u @ Path u
        @ (if RawQuery u \<noteq> '''' then ''?'' @ RawQuery u else '''')
        @ (if Fragment u \<noteq> '''' then ''#'' @ Fragment u else '''')),
      XMLNSItunes = ''http://www.itunes.com/dtds/podcast-1.0.dtd''\<rparr>"

definition track :: "string \<Rightarrow> string \<Rightarrow> string \<Rightarrow> youtubedl_Info" where
  "track ident title uploadDate =
     youtubedl_Info ident '''' title ''Mattheis'' '''' '''' '''' ''''
       (''https://example.org/'' @ ident) uploadDate []"

definition examplePlaylist :: youtubedl_Info where
  "examplePlaylist =
     youtubedl_Info ''set'' ''playlist'' ''Kindred Phenomena'' '''' '''' '''' '''' ''''
       ''https://example.org/set'' ''''
       [track ''a1'' ''Herds'' ''20240131'',
        youtubedl_Info ''inner'' ''playlist'' ''More'' '''' '''' '''' '''' ''''
          ''https://example.org/inner'' ''20240101'' [track ''b1'' ''Deep'' ''20240101''],
        track ''a2'' ''Loom'' ''2024-13-99'']"

definition mp3Format :: ydls_Format where
  "mp3Format = ydls_Format ''mp3'' ''mp3'' ''audio/mpeg'' (DownloadOptions '''' None [] None 0)"

definition rssFormat :: ydls_Format where
  "rssFormat =
     ydls_Format ''rss'' ''rss'' ''text/xml'' (DownloadOptions '''' (Some mp3Format) [] None 0)"

definition oneItemOptions :: DownloadOptions where
  "oneItemOptions =
     DownloadOptions ''https://example.org/set'' (Some rssFormat) []
       (Some (emptyURL\<lparr>Scheme := ''http'', Host := ''dummy''\<rparr>)) 1"

section \<open>The catalog of the negotiator's property\<close>

text \<open>
  The literals of \<open>TestFindYDLFormat\<close> in \<open>ydls_test.go\<close>: five formats given by identifier,
  protocol, raw codecs and total bitrate. Every other field is the zero value, the
  normalized fields among them: the test does not pass the formats through \<open>parseInfo\<close>.
\<close>

definition ydlFormats :: "int Format list" where
  "ydlFormats =
     [decodedFormat ''1'' '''' ''mp3'' ''h264'' 1,
      decodedFormat ''2'' '''' '''' ''h264'' 2,
      decodedFormat ''3'' '''' ''aac'' '''' 3,
      decodedFormat ''4'' '''' ''vorbis'' ''vp8'' 4,
      decodedFormat ''5'' '''' ''opus'' ''vp9'' 5]"

text \<open>
  Modelled from the spec: the catalog of the specification's property, five candidates
  with the normalized bitrates 1 to 5 and the normalized codecs mp3/h264, none/h264,
  aac/none, vorbis/vp8 and opus/vp9 (audio/video). The identifiers, the protocol and the
  raw fields are those of the literals above.
\<close>

definition catalogFormat :: "string \<Rightarrow> string \<Rightarrow> string \<Rightarrow> int \<Rightarrow> int Format" where
  "catalogFormat fid acodec vcodec br =
     \<lparr>FormatID = fid, Protocol = ''http'', Ext = '''', ACodec = acodec, VCodec = vcodec,
      TBR = br, ABR = 0, VBR = 0, NormBR = br, NormACodec = acodec, NormVCodec = vcodec\<rparr>"

definition specCatalog :: "int Format list" where
  "specCatalog =
     [catalogFormat ''1'' ''mp3'' ''h264'' 1,
      catalogFormat ''2'' '''' ''h264'' 2,
      catalogFormat ''3'' ''aac'' '''' 3,
      catalogFormat ''4'' ''vorbis'' ''vp8'' 4,
      catalogFormat ''5'' ''opus'' ''vp9'' 5]"



section \<open>Codec normalization: what it computes\<close>

lemma SplitN_two:
  "SplitN s sep 2 =
     (if sep \<in> set s
      then [takeWhile (\<lambda>c. c \<noteq> sep) s, tl (dropWhile (\<lambda>c. c \<noteq> sep) s)]
      else [s])"
  by (simp add: numeral_2_eq_2)

lemma SplitN_two_first: "SplitN s sep 2 ! 0 = takeWhile (\<lambda>c. c \<noteq> sep) s"
proof (cases "sep \<in> set s")
  case True
  then show ?thesis by (simp add: SplitN_two)
next
  case False
  then have "\<forall>x\<in>set s. x \<noteq> sep"
    by auto
  then have tw: "takeWhile (\<lambda>c. c \<noteq> sep) s = s"
    by (simp only: takeWhile_eq_all_conv)
  show ?thesis using False by (simp add: SplitN_two tw)
qed



lemma of_char_toLowerByte:
  "isUpper c \<Longrightarrow> (of_char (toLowerByte c) :: nat) = of_char c + 32"
  by (simp add: toLowerByte_def isUpper_def)

lemma toLowerByte_not_upper: "\<not> isUpper (toLowerByte c)"
  by (cases "isUpper c") (simp_all add: toLowerByte_def isUpper_def)

lemma toLowerByte_idem: "toLowerByte (toLowerByte c) = toLowerByte c"
  using toLowerByte_not_upper[of c] by (simp add: toLowerByte_def[of "toLowerByte c"])

lemma toLowerByte_eq_space: "toLowerByte c = CHR '' '' \<longleftrightarrow> c = CHR '' ''"
proof
  assume h: "toLowerByte c = CHR '' ''"
  show "c = CHR '' ''"
  proof (cases "isUpper c")
    case True
    from of_char_toLowerByte[OF True] h have "(32::nat) = of_char c + 32" by simp
    with True show ?thesis by (simp add: isUpper_def)
  next
    case False
    with h show ?thesis by (simp add: toLowerByte_def)
  qed
next
  assume "c = CHR '' ''"
  then show "toLowerByte c = CHR '' ''" by (simp add: toLowerByte_def isUpper_def)
qed

lemma toLowerByte_eq_dot: "toLowerByte c = CHR ''.'' \<longleftrightarrow> c = CHR ''.''"
proof
  assume h: "toLowerByte c = CHR ''.''"
  show "c = CHR ''.''"
  proof (cases "isUpper c")
    case True
    from of_char_toLowerByte[OF True] h have "(46::nat) = of_char c + 32" by simp
    with True show ?thesis by (simp add: isUpper_def)
  next
    case False
    with h show ?thesis by (simp add: toLowerByte_def)
  qed
next
  assume "c = CHR ''.''"
  then show "toLowerByte c = CHR ''.''" by (simp add: toLowerByte_def isUpper_def)
qed

lemma Trim_space: "Trim s '' '' = stripBoth isSpaceByte s"
  by (simp add: Trim_def stripBoth_def isSpaceByte_def[abs_def])

lemma codecNameNormalizeMap_cases:
  "(case codecNameNormalizeMap t of Some n \<Rightarrow> n | None \<Rightarrow> t) =
     (if t = ''none'' then ''''
      else if t = ''avc1'' \<or> t = ''mp4v'' then ''h264''
      else if t = ''mp4a'' then ''aac''
      else t)"
  by (simp add: codecNameNormalizeMap_def)

lemma stripBoth_map:
  assumes "\<And>x. ws (f x) = ws x"
  shows "stripBoth ws (map f s) = map f (stripBoth ws s)"
proof -
  have dw: "dropWhile ws (map f xs) = map f (dropWhile ws xs)" for xs
    by (induction xs) (simp_all add: assms)
  show ?thesis
    by (simp add: stripBoth_def dw rev_map)
qed

lemma dropWhile_all: "\<forall>x\<in>set xs. P x \<Longrightarrow> dropWhile P xs = []"
  by (induction xs) simp_all

lemma stripBoth_append_right:
  assumes "\<forall>x\<in>set post. ws x"
  shows "dropWhile ws (rev (dropWhile ws (s @ post))) = dropWhile ws (rev (dropWhile ws s))"
proof (induction s)
  case Nil
  then show ?case using assms by (simp add: dropWhile_all)
next
  case (Cons a s)
  show ?case
  proof (cases "ws a")
    case True
    with Cons show ?thesis by simp
  next
    case False
    have "dropWhile ws (rev post @ rev s @ [a]) = dropWhile ws (rev s @ [a])"
      using assms by (intro dropWhile_append2) simp
    with False show ?thesis by simp
  qed
qed

lemma stripBoth_padding:
  assumes "\<forall>x\<in>set pre. ws x" and "\<forall>x\<in>set post. ws x"
  shows "stripBoth ws (pre @ s @ post) = stripBoth ws s"
proof -
  have "dropWhile ws (pre @ s @ post) = dropWhile ws (s @ post)"
    using assms(1) by (intro dropWhile_append2) simp
  then show ?thesis
    by (simp add: stripBoth_def stripBoth_append_right[OF assms(2)])
qed

lemma stripBoth_prefix: "\<exists>zs. dropWhile ws s = stripBoth ws s @ zs"
proof -
  let ?d = "dropWhile ws s"
  have "rev (takeWhile ws (rev ?d) @ dropWhile ws (rev ?d)) = rev (rev ?d)"
    by (simp only: takeWhile_dropWhile_id)
  then have "rev (dropWhile ws (rev ?d)) @ rev (takeWhile ws (rev ?d)) = ?d"
    by (simp only: rev_append rev_rev_ident)
  then have "?d = stripBoth ws s @ rev (takeWhile ws (rev ?d))"
    by (simp only: stripBoth_def)
  then show ?thesis by blast
qed

lemma stripBoth_hd: "stripBoth ws s \<noteq> [] \<Longrightarrow> \<not> ws (hd (stripBoth ws s))"
proof -
  assume ne: "stripBoth ws s \<noteq> []"
  obtain zs where d: "dropWhile ws s = stripBoth ws s @ zs"
    using stripBoth_prefix by blast
  with ne have "dropWhile ws s \<noteq> []" by auto
  then have "\<not> ws (hd (dropWhile ws s))" by (rule hd_dropWhile)
  with d ne show ?thesis by simp
qed

lemma stripBoth_last: "stripBoth ws s \<noteq> [] \<Longrightarrow> \<not> ws (last (stripBoth ws s))"
proof -
  assume ne: "stripBoth ws s \<noteq> []"
  let ?e = "dropWhile ws (rev (dropWhile ws s))"
  from ne have e: "?e \<noteq> []" by (simp add: stripBoth_def)
  then have "\<not> ws (hd ?e)" by (rule hd_dropWhile)
  moreover have "last (rev ?e) = hd ?e" using e by (simp add: last_rev)
  ultimately show ?thesis by (simp add: stripBoth_def)
qed

lemma stripBoth_id:
  assumes "s = [] \<or> (\<not> ws (hd s) \<and> \<not> ws (last s))"
  shows "stripBoth ws s = s"
proof (cases s)
  case Nil
  then show ?thesis by (simp add: stripBoth_def)
next
  case (Cons a as)
  with assms have h: "\<not> ws a" and l: "\<not> ws (last s)" by auto
  from Cons h have d: "dropWhile ws s = s" by simp
  from Cons obtain b bs where r: "rev s = b # bs" by (cases "rev s") auto
  have "hd (rev s) = last s" using Cons by (simp add: hd_rev)
  then have "b = last s" by (simp only: r list.sel)
  with l have "dropWhile ws (b # bs) = b # bs" by simp
  then have "dropWhile ws (rev s) = rev s" by (simp only: r)
  with d show ?thesis by (simp add: stripBoth_def)
qed

lemma aliasOf_idem: "aliasOf (aliasOf t) = aliasOf t"
  by (simp add: aliasOf_def)

lemma aliasOf_endsWithSpace: "endsWithSpace (aliasOf t) \<Longrightarrow> endsWithSpace t"
  by (auto simp add: aliasOf_def endsWithSpace_def split: if_splits)

lemma aliasOf_hd_space: "aliasOf t \<noteq> [] \<Longrightarrow> hd (aliasOf t) = CHR '' '' \<Longrightarrow> aliasOf t = t"
  by (auto simp add: aliasOf_def split: if_splits)

lemma aliasOf_no_dot: "CHR ''.'' \<notin> set t \<Longrightarrow> CHR ''.'' \<notin> set (aliasOf t)"
  by (auto simp add: aliasOf_def)

subsection \<open>Lower-casing\<close>

lemma toLowerByte_ascii: "isASCII c \<Longrightarrow> isASCII (toLowerByte c)"
proof (cases "isUpper c")
  case True
  from of_char_toLowerByte[OF True] True show ?thesis
    by (simp add: isASCII_def isUpper_def)
next
  case False
  assume "isASCII c"
  with False show ?thesis by (simp add: toLowerByte_def)
qed

lemma ToLower_ascii: "list_all isASCII s \<Longrightarrow> ToLower mapLower s = map toLowerByte s"
  by (simp add: ToLower_def)

lemma ascii_map_lower: "list_all isASCII s \<Longrightarrow> list_all isASCII (map toLowerByte s)"
  by (simp add: list_all_iff toLowerByte_ascii)

lemma set_stripBoth: "set (stripBoth ws s) \<subseteq> set s"
  by (auto simp add: stripBoth_def dest!: set_dropWhileD)

lemma ascii_stripBoth: "list_all isASCII s \<Longrightarrow> list_all isASCII (stripBoth ws s)"
  using set_stripBoth[of ws s] by (auto simp add: list_all_iff)

lemma ascii_takeWhile: "list_all isASCII s \<Longrightarrow> list_all isASCII (takeWhile P s)"
  by (auto simp add: list_all_iff dest: set_takeWhileD)

lemma map_lower_stripBoth:
  "map toLowerByte (stripBoth isSpaceByte s) = stripBoth isSpaceByte (map toLowerByte s)"
  by (rule stripBoth_map[symmetric]) (simp add: isSpaceByte_def toLowerByte_eq_space)

lemma map_lower_prefix:
  "map toLowerByte (takeWhile P (map toLowerByte s)) = takeWhile P (map toLowerByte s)"
  by (induction s) (simp_all add: toLowerByte_idem)

lemma map_lower_space:
  assumes "CHR '' '' \<in> set (map toLowerByte s)"
  shows "CHR '' '' \<in> set s"
proof -
  from assms obtain x where x: "x \<in> set s" and "toLowerByte x = CHR '' ''"
    by auto
  then have "x = CHR '' ''" by (simp add: toLowerByte_eq_space)
  with x show ?thesis by simp
qed

text \<open>The three facts hold wherever lower-casing is the map over the bytes.\<close>

lemma lowerAt_bytewise:
  assumes a: "ToLower mapLower s = map toLowerByte s"
    and b: "ToLower mapLower (stripBoth isSpaceByte s) = map toLowerByte (stripBoth isSpaceByte s)"
    and c: "ToLower mapLower (takeWhile (\<lambda>x. x \<noteq> CHR ''.'') (map toLowerByte s))
              = map toLowerByte (takeWhile (\<lambda>x. x \<noteq> CHR ''.'') (map toLowerByte s))"
  shows "lowerAt mapLower s"
  unfolding lowerAt_def a b c
  using map_lower_space[of s] by (simp add: map_lower_stripBoth map_lower_prefix)

lemma ascii_lowerAt:
  assumes "list_all isASCII s"
  shows "lowerAt mapLower s"
proof (rule lowerAt_bytewise)
  show "ToLower mapLower s = map toLowerByte s"
    using assms by (rule ToLower_ascii)
  show "ToLower mapLower (stripBoth isSpaceByte s) = map toLowerByte (stripBoth isSpaceByte s)"
    using assms by (intro ToLower_ascii ascii_stripBoth)
  show "ToLower mapLower (takeWhile (\<lambda>x. x \<noteq> CHR ''.'') (map toLowerByte s))
          = map toLowerByte (takeWhile (\<lambda>x. x \<noteq> CHR ''.'') (map toLowerByte s))"
    using assms by (intro ToLower_ascii ascii_takeWhile ascii_map_lower)
qed

lemma ToLower_bytewiseLower: "ToLower bytewiseLower s = map toLowerByte s"
  by (simp add: ToLower_def bytewiseLower_def)

lemma lowerLaws_bytewiseLower: "lowerLaws bytewiseLower"
  unfolding lowerLaws_def
  by (intro allI lowerAt_bytewise ToLower_bytewiseLower)

lemma lowerAt_strip:
  "lowerAt mapLower s \<Longrightarrow>
   ToLower mapLower (stripBoth isSpaceByte s) = stripBoth isSpaceByte (ToLower mapLower s)"
  by (simp add: lowerAt_def)

lemma lowerAt_prefix:
  "lowerAt mapLower s \<Longrightarrow>
   ToLower mapLower (takeWhile (\<lambda>x. x \<noteq> CHR ''.'') (ToLower mapLower s))
     = takeWhile (\<lambda>x. x \<noteq> CHR ''.'') (ToLower mapLower s)"
  by (simp add: lowerAt_def)

lemma lowerAt_space:
  "lowerAt mapLower s \<Longrightarrow> CHR '' '' \<in> set (ToLower mapLower s) \<Longrightarrow> CHR '' '' \<in> set s"
  by (simp add: lowerAt_def)

subsection \<open>The normalization as a composition\<close>

lemma normalize_described:
  "normalizeCodecName mapLower c = describedNormalize (ToLower mapLower) isSpaceByte c"
  unfolding normalizeCodecName_def describedNormalize_def Let_def
  by (simp only: SplitN_two_first Trim_space codecNameNormalizeMap_cases)

lemma normalize_alias:
  "normalizeCodecName mapLower c
     = aliasOf (takeWhile (\<lambda>x. x \<noteq> CHR ''.'') (ToLower mapLower (stripBoth isSpaceByte c)))"
  by (simp add: normalize_described describedNormalize_def aliasOf_def)

lemma normalize_ascii_path:
  assumes "list_all isASCII c"
  shows "normalizeCodecName mapLower c = describedNormalize (map toLowerByte) isSpaceByte c"
proof -
  have "ToLower mapLower (stripBoth isSpaceByte c) = map toLowerByte (stripBoth isSpaceByte c)"
    using assms by (intro ToLower_ascii ascii_stripBoth)
  then show ?thesis
    by (simp add: normalize_described describedNormalize_def)
qed

lemma aliasOf_lower: "ToLower mapLower t = t \<Longrightarrow> ToLower mapLower (aliasOf t) = aliasOf t"
  unfolding aliasOf_def
  by (auto simp add: ToLower_def isASCII_def toLowerByte_def isUpper_def)

lemma aliasOf_ascii: "list_all isASCII t \<Longrightarrow> list_all isASCII (aliasOf t)"
  unfolding aliasOf_def by (auto simp add: isASCII_def)

lemma normalize_ascii:
  assumes "list_all isASCII c"
  shows "list_all isASCII (normalizeCodecName mapLower c)"
proof -
  have "ToLower mapLower (stripBoth isSpaceByte c) = map toLowerByte (stripBoth isSpaceByte c)"
    using assms by (intro ToLower_ascii ascii_stripBoth)
  moreover have "list_all isASCII
      (takeWhile (\<lambda>x. x \<noteq> CHR ''.'') (map toLowerByte (stripBoth isSpaceByte c)))"
    using assms by (intro ascii_takeWhile ascii_map_lower ascii_stripBoth)
  ultimately show ?thesis
    unfolding normalize_alias by (simp add: aliasOf_ascii)
qed

lemma normalize_padding:
  "normalizeCodecName mapLower (replicate n (CHR '' '') @ c @ replicate m (CHR '' ''))
     = normalizeCodecName mapLower c"
  by (simp add: normalize_alias stripBoth_padding isSpaceByte_def)

lemma normalize_no_dot: "CHR ''.'' \<notin> set (normalizeCodecName mapLower c)"
proof -
  have "CHR ''.'' \<notin> set (takeWhile (\<lambda>x. x \<noteq> CHR ''.'') xs)" for xs
    by (auto dest: set_takeWhileD)
  then show ?thesis unfolding normalize_alias by (rule aliasOf_no_dot)
qed

subsection \<open>What the properties of the normalization need of lower-casing\<close>

lemma normalize_strip_lower:
  assumes "lowerAt mapLower c"
  shows "normalizeCodecName mapLower c
     = aliasOf (takeWhile (\<lambda>x. x \<noteq> CHR ''.'') (stripBoth isSpaceByte (ToLower mapLower c)))"
  by (simp only: normalize_alias lowerAt_strip[OF assms])

lemma normalize_case_insensitive:
  assumes "lowerAt mapLower c" and "lowerAt mapLower c'"
    and "ToLower mapLower c = ToLower mapLower c'"
  shows "normalizeCodecName mapLower c = normalizeCodecName mapLower c'"
  by (simp only: normalize_strip_lower[OF assms(1)] normalize_strip_lower[OF assms(2)] assms(3))

lemma normalize_lower:
  assumes "lowerAt mapLower (stripBoth isSpaceByte c)"
  shows "ToLower mapLower (normalizeCodecName mapLower c) = normalizeCodecName mapLower c"
  unfolding normalize_alias
  using lowerAt_prefix[OF assms] by (rule aliasOf_lower)

lemma normalize_hd:
  assumes la: "lowerAt mapLower c" and ne: "normalizeCodecName mapLower c \<noteq> []"
  shows "hd (normalizeCodecName mapLower c) \<noteq> CHR '' ''"
proof
  assume sp: "hd (normalizeCodecName mapLower c) = CHR '' ''"
  let ?s = "stripBoth isSpaceByte (ToLower mapLower c)"
  let ?t = "takeWhile (\<lambda>x. x \<noteq> CHR ''.'') ?s"
  from ne sp have eq: "normalizeCodecName mapLower c = ?t"
    unfolding normalize_strip_lower[OF la] by (rule aliasOf_hd_space)
  with ne have tne: "?t \<noteq> []" by simp
  then have sne: "?s \<noteq> []" by auto
  from tne have "hd ?t = hd ?s" by (cases ?s) (auto split: if_splits)
  with sp eq have "hd ?s = CHR '' ''" by simp
  with stripBoth_hd[OF sne] show False by (simp add: isSpaceByte_def)
qed

lemma normalize_fixed:
  assumes nd: "CHR ''.'' \<notin> set r" and lo: "ToLower mapLower r = r" and la: "lowerAt mapLower r"
  shows "normalizeCodecName mapLower r = aliasOf (stripBoth isSpaceByte r)"
proof -
  have "CHR ''.'' \<notin> set (stripBoth isSpaceByte r)"
    using nd set_stripBoth[of isSpaceByte r] by auto
  then have tw: "takeWhile (\<lambda>x. x \<noteq> CHR ''.'') (stripBoth isSpaceByte r) = stripBoth isSpaceByte r"
    by (simp only: takeWhile_eq_all_conv) auto
  show ?thesis
    by (simp only: normalize_strip_lower[OF la] lo tw)
qed

lemma normalize_idem_iff:
  assumes la: "lowerAt mapLower c" and ls: "lowerAt mapLower (stripBoth isSpaceByte c)"
    and lr: "lowerAt mapLower (normalizeCodecName mapLower c)"
  shows "normalizeCodecName mapLower (normalizeCodecName mapLower c) = normalizeCodecName mapLower c
     \<longleftrightarrow> \<not> endsWithSpace (normalizeCodecName mapLower c)"
proof -
  let ?r = "normalizeCodecName mapLower c"
  have again: "normalizeCodecName mapLower ?r = aliasOf (stripBoth isSpaceByte ?r)"
    using normalize_no_dot normalize_lower[OF ls] lr by (rule normalize_fixed)
  show ?thesis
  proof
    assume fixed: "normalizeCodecName mapLower ?r = ?r"
    show "\<not> endsWithSpace ?r"
    proof
      assume e: "endsWithSpace ?r"
      with fixed again have "endsWithSpace (aliasOf (stripBoth isSpaceByte ?r))" by simp
      then have "endsWithSpace (stripBoth isSpaceByte ?r)" by (rule aliasOf_endsWithSpace)
      then have sne: "stripBoth isSpaceByte ?r \<noteq> []"
        and "last (stripBoth isSpaceByte ?r) = CHR '' ''"
        by (simp_all add: endsWithSpace_def)
      with stripBoth_last[OF sne] show False by (simp add: isSpaceByte_def)
    qed
  next
    assume e: "\<not> endsWithSpace ?r"
    have "?r = [] \<or> (\<not> isSpaceByte (hd ?r) \<and> \<not> isSpaceByte (last ?r))"
      using normalize_hd[OF la] e by (auto simp add: isSpaceByte_def endsWithSpace_def)
    then have "stripBoth isSpaceByte ?r = ?r" by (rule stripBoth_id)
    with again have "normalizeCodecName mapLower ?r = aliasOf ?r" by simp
    also have "\<dots> = ?r"
      unfolding normalize_alias by (rule aliasOf_idem)
    finally show "normalizeCodecName mapLower ?r = ?r" .
  qed
qed

lemma normalize_without_space:
  assumes ls: "lowerAt mapLower (stripBoth isSpaceByte c)" and ns: "CHR '' '' \<notin> set c"
  shows "\<not> endsWithSpace (normalizeCodecName mapLower c)"
proof
  let ?l = "ToLower mapLower (stripBoth isSpaceByte c)"
  assume "endsWithSpace (normalizeCodecName mapLower c)"
  then have "endsWithSpace (takeWhile (\<lambda>x. x \<noteq> CHR ''.'') ?l)"
    unfolding normalize_alias by (rule aliasOf_endsWithSpace)
  then have "CHR '' '' \<in> set (takeWhile (\<lambda>x. x \<noteq> CHR ''.'') ?l)"
    unfolding endsWithSpace_def using last_in_set by fastforce
  then have "CHR '' '' \<in> set ?l"
    by (rule set_takeWhileD[THEN conjunct1])
  with ls have "CHR '' '' \<in> set (stripBoth isSpaceByte c)"
    by (rule lowerAt_space)
  with set_stripBoth[of isSpaceByte c] ns show False by auto
qed

text \<open>
  The facts hold at the three strings that matter for an ASCII argument, and everywhere
  under the laws.
\<close>

lemma lowerAt_of_ascii_or_laws:
  assumes "list_all isASCII c \<or> lowerLaws mapLower"
  shows "lowerAt mapLower c"
    and "lowerAt mapLower (stripBoth isSpaceByte c)"
    and "lowerAt mapLower (normalizeCodecName mapLower c)"
proof -
  from assms show "lowerAt mapLower c"
    by (auto simp add: lowerLaws_def intro: ascii_lowerAt)
  from assms show "lowerAt mapLower (stripBoth isSpaceByte c)"
    by (auto simp add: lowerLaws_def intro: ascii_lowerAt ascii_stripBoth)
  from assms show "lowerAt mapLower (normalizeCodecName mapLower c)"
    by (auto simp add: lowerLaws_def intro: ascii_lowerAt normalize_ascii)
qed

lemma normalize_example_padded: "normalizeCodecName mapLower ''  AVC1.640028 '' = ''h264''"
proof -
  have "list_all isASCII ''  AVC1.640028 ''" by code_simp
  moreover have "describedNormalize (map toLowerByte) isSpaceByte ''  AVC1.640028 '' = ''h264''"
    by code_simp
  ultimately show ?thesis by (simp only: normalize_ascii_path)
qed

lemma normalize_example_plain: "normalizeCodecName mapLower ''avc1'' = ''h264''"
proof -
  have "list_all isASCII ''avc1''" by code_simp
  moreover have "describedNormalize (map toLowerByte) isSpaceByte ''avc1'' = ''h264''"
    by code_simp
  ultimately show ?thesis by (simp only: normalize_ascii_path)
qed

subsection \<open>The steps of the normalization\<close>

text \<open>
  C3 (as amended). For every string, \<open>normalizeCodecName\<close> strips the surrounding space
  characters (only the byte \<open>0x20\<close>, the cutset of the source), lower-cases with
  \<^verbatim>\<open>strings.ToLower\<close>, cuts at the first dot, maps \<open>avc1\<close> and \<open>mp4v\<close> to \<open>h264\<close>, \<open>mp4a\<close> to
  \<open>aac\<close> and \<open>none\<close> to the empty string, and returns every other token as it stands after
  these steps. For a string of ASCII bytes the lower-casing is the map of A to Z to a to z,
  whatever the library does outside ASCII.
\<close>

theorem normalizeCodecName_steps:
  "normalizeCodecName mapLower c = describedNormalize (ToLower mapLower) isSpaceByte c \<and>
   (list_all isASCII c \<longrightarrow>
      normalizeCodecName mapLower c = describedNormalize (map toLowerByte) isSpaceByte c)"
proof (intro conjI impI)
  have trim: "Trim c '' '' = stripBoth isSpaceByte c"
    by (rule Trim_space)
  have cut: "SplitN (ToLower mapLower (stripBoth isSpaceByte c)) (CHR ''.'') 2 ! 0
      = takeWhile (\<lambda>x. x \<noteq> CHR ''.'') (ToLower mapLower (stripBoth isSpaceByte c))"
    by (rule SplitN_two_first)
  show "normalizeCodecName mapLower c = describedNormalize (ToLower mapLower) isSpaceByte c"
    unfolding normalizeCodecName_def describedNormalize_def Let_def trim cut
    by (rule codecNameNormalizeMap_cases)
  show "normalizeCodecName mapLower c = describedNormalize (map toLowerByte) isSpaceByte c"
    if "list_all isASCII c"
    using that by (rule normalize_ascii_path)
qed

text \<open>
  The string \<open>"  AVC1.640028 "\<close> is ASCII: whatever the Unicode path of the library is, it
  is normalized to \<open>"h264"\<close>.
\<close>

theorem normalizeCodecName_steps_witness:
  "\<forall>mapLower. list_all isASCII ''  AVC1.640028 '' \<and>
     normalizeCodecName mapLower ''  AVC1.640028 '' = ''h264''"
proof
  fix mapLower :: "string \<Rightarrow> string"
  have ascii: "list_all isASCII ''  AVC1.640028 ''"
    by code_simp
  have "describedNormalize (map toLowerByte) isSpaceByte ''  AVC1.640028 '' = ''h264''"
    by code_simp
  with normalizeCodecName_steps[of mapLower "''  AVC1.640028 ''"] ascii
  show "list_all isASCII ''  AVC1.640028 '' \<and>
     normalizeCodecName mapLower ''  AVC1.640028 '' = ''h264''"
    by metis
qed

text \<open>
  With white space in the usual sense the description fails: a leading tab is white space,
  but the source does not strip it, so the alias \<open>avc1\<close> is not recognised behind it. The
  string is ASCII, so this is so whatever the Unicode path of the library is.
\<close>

theorem normalizeCodecName_tab_counterexample:
  "\<forall>mapLower.
     normalizeCodecName mapLower (CHR 0x09 # ''avc1'') = CHR 0x09 # ''avc1'' \<and>
     describedNormalize (ToLower mapLower) isWhitespace (CHR 0x09 # ''avc1'') = ''h264''"
proof
  fix mapLower :: "string \<Rightarrow> string"
  have ascii: "list_all isASCII (CHR 0x09 # ''avc1'')"
    by code_simp
  have src: "describedNormalize (map toLowerByte) isSpaceByte (CHR 0x09 # ''avc1'')
      = CHR 0x09 # ''avc1''"
    by code_simp
  have strip: "stripBoth isWhitespace (CHR 0x09 # ''avc1'') = ''avc1''"
    by code_simp
  have lower: "ToLower mapLower ''avc1'' = ''avc1''"
    by (simp add: ToLower_def isASCII_def toLowerByte_def isUpper_def)
  have "describedNormalize (ToLower mapLower) isWhitespace (CHR 0x09 # ''avc1'') = ''h264''"
    by (simp add: describedNormalize_def strip lower)
  with normalize_ascii_path[OF ascii, of mapLower] src
  show "normalizeCodecName mapLower (CHR 0x09 # ''avc1'') = CHR 0x09 # ''avc1'' \<and>
     describedNormalize (ToLower mapLower) isWhitespace (CHR 0x09 # ''avc1'') = ''h264''"
    by simp
qed

subsection \<open>Idempotence, letter case and surrounding spaces\<close>

text \<open>
  C4 (as amended). For every string of ASCII bytes, and for every string if the Unicode
  path of \<^verbatim>\<open>strings.ToLower\<close> obeys \<open>lowerLaws\<close>: normalizing twice gives the result of
  normalizing once exactly when that result does not end in a space; this is so for every
  such string without a space. Two such strings with the same lower-casing have the same
  normalization. For every string, spaces added at both ends do not change the
  normalization, and both \<open>"  AVC1.640028 "\<close> and \<open>"avc1"\<close> are normalized to \<open>"h264"\<close>.
\<close>

theorem normalizeCodecName_idempotent_iff:
  assumes "(list_all isASCII c \<and> list_all isASCII c') \<or> lowerLaws mapLower"
  shows
  "(normalizeCodecName mapLower (normalizeCodecName mapLower c) = normalizeCodecName mapLower c
      \<longleftrightarrow> \<not> endsWithSpace (normalizeCodecName mapLower c)) \<and>
   (CHR '' '' \<notin> set c \<longrightarrow>
      normalizeCodecName mapLower (normalizeCodecName mapLower c) = normalizeCodecName mapLower c) \<and>
   (ToLower mapLower c = ToLower mapLower c' \<longrightarrow>
      normalizeCodecName mapLower c = normalizeCodecName mapLower c') \<and>
   normalizeCodecName mapLower (replicate n (CHR '' '') @ c @ replicate m (CHR '' ''))
     = normalizeCodecName mapLower c \<and>
   normalizeCodecName mapLower ''  AVC1.640028 '' = ''h264'' \<and>
   normalizeCodecName mapLower ''avc1'' = ''h264''"
proof -
  from assms have c: "list_all isASCII c \<or> lowerLaws mapLower"
    and c': "list_all isASCII c' \<or> lowerLaws mapLower"
    by auto
  note la = lowerAt_of_ascii_or_laws[OF c]
  note la' = lowerAt_of_ascii_or_laws[OF c']
  have iff: "normalizeCodecName mapLower (normalizeCodecName mapLower c) = normalizeCodecName mapLower c
      \<longleftrightarrow> \<not> endsWithSpace (normalizeCodecName mapLower c)"
    using la by (rule normalize_idem_iff)
  show ?thesis
  proof (intro conjI impI)
    show "normalizeCodecName mapLower (normalizeCodecName mapLower c) = normalizeCodecName mapLower c
        \<longleftrightarrow> \<not> endsWithSpace (normalizeCodecName mapLower c)"
      by (rule iff)
    show "normalizeCodecName mapLower (normalizeCodecName mapLower c) = normalizeCodecName mapLower c"
      if "CHR '' '' \<notin> set c"
      using normalize_without_space[OF la(2) that] by (simp add: iff)
    show "normalizeCodecName mapLower c = normalizeCodecName mapLower c'"
      if "ToLower mapLower c = ToLower mapLower c'"
      using la(1) la'(1) that by (rule normalize_case_insensitive)
    show "normalizeCodecName mapLower (replicate n (CHR '' '') @ c @ replicate m (CHR '' ''))
        = normalizeCodecName mapLower c"
      by (rule normalize_padding)
    show "normalizeCodecName mapLower ''  AVC1.640028 '' = ''h264''"
      by (rule normalize_example_padded)
    show "normalizeCodecName mapLower ''avc1'' = ''h264''"
      by (rule normalize_example_plain)
  qed
qed

text \<open>
  At the ASCII strings \<open>"AVC1.640028"\<close> and \<open>"avc1.640028"\<close>, whatever the Unicode path is;
  and under the laws, which the byte-wise lower-casing obeys, at two strings that begin
  with the two bytes of a letter outside ASCII and differ in the case of their ASCII
  letters.
\<close>

theorem normalizeCodecName_idempotent_iff_witness:
  "(\<forall>mapLower.
      normalizeCodecName mapLower (normalizeCodecName mapLower ''AVC1.640028'')
        = normalizeCodecName mapLower ''AVC1.640028'' \<and>
      normalizeCodecName mapLower ''AVC1.640028'' = normalizeCodecName mapLower ''avc1.640028'' \<and>
      normalizeCodecName mapLower (replicate 2 (CHR '' '') @ ''AVC1.640028'' @ replicate 1 (CHR '' ''))
        = normalizeCodecName mapLower ''AVC1.640028'') \<and>
   lowerLaws bytewiseLower \<and>
   \<not> list_all isASCII (CHR 0xC3 # CHR 0x84 # ''VC1'') \<and>
   normalizeCodecName bytewiseLower (CHR 0xC3 # CHR 0x84 # ''VC1'')
     = normalizeCodecName bytewiseLower (CHR 0xC3 # CHR 0x84 # ''vc1'')"
proof (intro conjI allI)
  fix mapLower :: "string \<Rightarrow> string"
  have ascii: "list_all isASCII ''AVC1.640028'' \<and> list_all isASCII ''avc1.640028''"
    by code_simp
  have nosp: "CHR '' '' \<notin> set ''AVC1.640028''"
    by code_simp
  have "map toLowerByte ''AVC1.640028'' = map toLowerByte ''avc1.640028''"
    by code_simp
  with ascii have lower: "ToLower mapLower ''AVC1.640028'' = ToLower mapLower ''avc1.640028''"
    by (simp only: ToLower_ascii)
  note inst = normalizeCodecName_idempotent_iff
    [of "''AVC1.640028''" "''avc1.640028''" mapLower 2 1, OF disjI1, OF ascii]
  from inst nosp
  show "normalizeCodecName mapLower (normalizeCodecName mapLower ''AVC1.640028'')
        = normalizeCodecName mapLower ''AVC1.640028''"
    by blast
  from inst lower
  show "normalizeCodecName mapLower ''AVC1.640028'' = normalizeCodecName mapLower ''avc1.640028''"
    by blast
  from inst
  show "normalizeCodecName mapLower (replicate 2 (CHR '' '') @ ''AVC1.640028'' @ replicate 1 (CHR '' ''))
        = normalizeCodecName mapLower ''AVC1.640028''"
    by blast
next
  show laws: "lowerLaws bytewiseLower"
    by (rule lowerLaws_bytewiseLower)
  show "\<not> list_all isASCII (CHR 0xC3 # CHR 0x84 # ''VC1'')"
    by code_simp
  have lower: "ToLower bytewiseLower (CHR 0xC3 # CHR 0x84 # ''VC1'')
      = ToLower bytewiseLower (CHR 0xC3 # CHR 0x84 # ''vc1'')"
    by code_simp
  from normalizeCodecName_idempotent_iff
    [of "CHR 0xC3 # CHR 0x84 # ''VC1''" "CHR 0xC3 # CHR 0x84 # ''vc1''" bytewiseLower 0 0,
     OF disjI2, OF laws] lower
  show "normalizeCodecName bytewiseLower (CHR 0xC3 # CHR 0x84 # ''VC1'')
     = normalizeCodecName bytewiseLower (CHR 0xC3 # CHR 0x84 # ''vc1'')"
    by blast
qed

text \<open>
  As stated for every string, idempotence fails where a space stands before the first dot:
  the first pass cuts at the dot and leaves the space at the end, the second pass strips
  it and then finds the alias. A tab in front is not stripped either. Both strings are
  ASCII, so this is so whatever the Unicode path of the library is.
\<close>

theorem normalizeCodecName_idempotent_counterexample:
  "\<forall>mapLower.
     normalizeCodecName mapLower ''avc1 .640028'' = ''avc1 '' \<and>
     normalizeCodecName mapLower ''avc1 '' = ''h264'' \<and>
     normalizeCodecName mapLower (normalizeCodecName mapLower ''avc1 .640028'')
       \<noteq> normalizeCodecName mapLower ''avc1 .640028'' \<and>
     normalizeCodecName mapLower (CHR 0x09 # ''avc1'') \<noteq> normalizeCodecName mapLower ''avc1''"
proof
  fix mapLower :: "string \<Rightarrow> string"
  have a1: "list_all isASCII ''avc1 .640028''" by code_simp
  have a2: "list_all isASCII ''avc1 ''" by code_simp
  have a3: "list_all isASCII (CHR 0x09 # ''avc1'')" by code_simp
  have a4: "list_all isASCII ''avc1''" by code_simp
  have v1: "describedNormalize (map toLowerByte) isSpaceByte ''avc1 .640028'' = ''avc1 ''"
    by code_simp
  have v2: "describedNormalize (map toLowerByte) isSpaceByte ''avc1 '' = ''h264''"
    by code_simp
  have v3: "describedNormalize (map toLowerByte) isSpaceByte (CHR 0x09 # ''avc1'')
      = CHR 0x09 # ''avc1''"
    by code_simp
  have v4: "describedNormalize (map toLowerByte) isSpaceByte ''avc1'' = ''h264''"
    by code_simp
  have n1: "normalizeCodecName mapLower ''avc1 .640028'' = ''avc1 ''"
    using v1 by (simp only: normalize_ascii_path[OF a1])
  have n2: "normalizeCodecName mapLower ''avc1 '' = ''h264''"
    using v2 by (simp only: normalize_ascii_path[OF a2])
  have n3: "normalizeCodecName mapLower (CHR 0x09 # ''avc1'') = CHR 0x09 # ''avc1''"
    using v3 by (simp only: normalize_ascii_path[OF a3])
  have n4: "normalizeCodecName mapLower ''avc1'' = ''h264''"
    using v4 by (simp only: normalize_ascii_path[OF a4])
  show "normalizeCodecName mapLower ''avc1 .640028'' = ''avc1 '' \<and>
     normalizeCodecName mapLower ''avc1 '' = ''h264'' \<and>
     normalizeCodecName mapLower (normalizeCodecName mapLower ''avc1 .640028'')
       \<noteq> normalizeCodecName mapLower ''avc1 .640028'' \<and>
     normalizeCodecName mapLower (CHR 0x09 # ''avc1'') \<noteq> normalizeCodecName mapLower ''avc1''"
    by (simp add: n1 n2 n3 n4)
qed

section \<open>parseInfo: the derived codec fields and the raw bytes\<close>

lemma parseInfo_loop_Inr:
  "parseInfo_loop s fs = Inr gs \<Longrightarrow>
     None \<notin> set fs \<and> gs = map (map_option (parseInfo_format s)) fs"
proof (induction fs arbitrary: gs)
  case Nil
  then show ?case by simp
next
  case (Cons a fs)
  then show ?case
    by (cases a) (auto split: sum.splits)
qed

lemma parseInfo_format_codecs:
  "NormACodec (parseInfo_format s f) =
     (if ACodec f = '''' then fst (codecFromExt (Map_ToLower s) (Ext f))
      else normalizeCodecName (Map_ToLower s) (ACodec f))"
  "NormVCodec (parseInfo_format s f) =
     (if VCodec f = '''' then snd (codecFromExt (Map_ToLower s) (Ext f))
      else normalizeCodecName (Map_ToLower s) (VCodec f))"
  by (simp_all add: parseInfo_format_def Let_def split: prod.splits)

lemma codecFromExt_table:
  "codecFromExt mapLower ext = describedExtTable (ToLower mapLower ext)"
  by (simp add: codecFromExt_def describedExtTable_def Let_def)

lemma parseInfo_Inr:
  assumes "parseInfo s (Inr raw) = Inr i"
  shows "\<exists>d. json_Unmarshal s raw = Inr d \<and> None \<notin> set (Formats d) \<and>
     i = d\<lparr>Formats := map (map_option (parseInfo_format s)) (Formats d),
            ThumbnailBytes := [], rawJSON := raw\<rparr>"
  using assms
  by (auto simp add: parseInfo_def Let_def split: sum.splits dest!: parseInfo_loop_Inr)

lemma unmarshal_noneCodec:
  "json_Unmarshal exampleSys noneCodecJSON =
     Inr (decodedInfo [Some (decodedFormat ''18'' ''mp4'' ''none'' '''' 96)])"
  by code_simp

lemma parseInfo_noneCodec: "parseInfo exampleSys (Inr noneCodecJSON) = Inr noneCodecParsed"
  by code_simp

text \<open>
  C5 (as amended). For every format of a document that \<open>parseInfo\<close> accepts: when the raw
  audio (video) codec is the empty string, the normalized audio (video) codec is the entry
  of the fixed table for the lower-cased extension (\<open>mp3\<close>: audio \<open>mp3\<close>, no video; \<open>mp4\<close>
  and \<open>flv\<close>: audio \<open>aac\<close>, video \<open>h264\<close>; anything else: empty for both); when the raw
  codec is not empty it is the normalization of the raw codec, also when that is empty.
\<close>

theorem parseInfo_codec_fallback:
  assumes "parseInfo s (Inr raw) = Inr i"
  shows "\<exists>d. json_Unmarshal s raw = Inr d \<and> length (Formats i) = length (Formats d) \<and>
     (\<forall>k<length (Formats d). \<exists>f g. Formats d ! k = Some f \<and> Formats i ! k = Some g \<and>
        NormACodec g =
          (if ACodec f = '''' then fst (describedExtTable (ToLower (Map_ToLower s) (Ext f)))
           else normalizeCodecName (Map_ToLower s) (ACodec f)) \<and>
        NormVCodec g =
          (if VCodec f = '''' then snd (describedExtTable (ToLower (Map_ToLower s) (Ext f)))
           else normalizeCodecName (Map_ToLower s) (VCodec f)))"
proof -
  from parseInfo_Inr[OF assms] obtain d where
    d: "json_Unmarshal s raw = Inr d" and nn: "None \<notin> set (Formats d)" and
    i: "i = d\<lparr>Formats := map (map_option (parseInfo_format s)) (Formats d),
            ThumbnailBytes := [], rawJSON := raw\<rparr>"
    by blast
  have "\<exists>f g. Formats d ! k = Some f \<and> Formats i ! k = Some g \<and>
        NormACodec g =
          (if ACodec f = '''' then fst (describedExtTable (ToLower (Map_ToLower s) (Ext f)))
           else normalizeCodecName (Map_ToLower s) (ACodec f)) \<and>
        NormVCodec g =
          (if VCodec f = '''' then snd (describedExtTable (ToLower (Map_ToLower s) (Ext f)))
           else normalizeCodecName (Map_ToLower s) (VCodec f))" if k: "k < length (Formats d)" for k
  proof -
    from k nn have "Formats d ! k \<noteq> None" by (metis nth_mem)
    then obtain f where f: "Formats d ! k = Some f" by auto
    with k i have "Formats i ! k = Some (parseInfo_format s f)" by simp
    with f show ?thesis
      by (simp add: parseInfo_format_codecs codecFromExt_table)
  qed
  with d i show ?thesis by simp
qed

text \<open>
  The document has one format with extension \<open>mp4\<close>, audio codec \<open>none\<close> and no video
  codec: the audio codec is normalized to the empty string and stays so, the video codec
  comes from the table.
\<close>

theorem parseInfo_codec_fallback_witness:
  "parseInfo exampleSys (Inr noneCodecJSON) = Inr noneCodecParsed \<and>
   NormACodec (the (Formats noneCodecParsed ! 0)) = '''' \<and>
   NormVCodec (the (Formats noneCodecParsed ! 0)) = ''h264''"
proof -
  let ?f = "decodedFormat ''18'' ''mp4'' ''none'' '''' 96"
  from parseInfo_codec_fallback[OF parseInfo_noneCodec] obtain d where
    d: "json_Unmarshal exampleSys noneCodecJSON = Inr d" and
    all: "\<forall>k<length (Formats d). \<exists>f g. Formats d ! k = Some f \<and>
        Formats noneCodecParsed ! k = Some g \<and>
        NormACodec g =
          (if ACodec f = '''' then fst (describedExtTable (ToLower (Map_ToLower exampleSys) (Ext f)))
           else normalizeCodecName (Map_ToLower exampleSys) (ACodec f)) \<and>
        NormVCodec g =
          (if VCodec f = '''' then snd (describedExtTable (ToLower (Map_ToLower exampleSys) (Ext f)))
           else normalizeCodecName (Map_ToLower exampleSys) (VCodec f))"
    by blast
  from d have dd: "d = decodedInfo [Some ?f]"
    by (simp add: unmarshal_noneCodec)
  then have "0 < length (Formats d)" and "Formats d ! 0 = Some ?f"
    by (simp_all add: decodedInfo_def)
  with all obtain g where g: "Formats noneCodecParsed ! 0 = Some g" and
    a: "NormACodec g =
          (if ACodec ?f = '''' then fst (describedExtTable (ToLower (Map_ToLower exampleSys) (Ext ?f)))
           else normalizeCodecName (Map_ToLower exampleSys) (ACodec ?f))" and
    v: "NormVCodec g =
          (if VCodec ?f = '''' then snd (describedExtTable (ToLower (Map_ToLower exampleSys) (Ext ?f)))
           else normalizeCodecName (Map_ToLower exampleSys) (VCodec ?f))"
    by fastforce
  have n: "normalizeCodecName (Map_ToLower exampleSys) ''none'' = ''''" by code_simp
  have t: "describedExtTable (ToLower (Map_ToLower exampleSys) ''mp4'') = (''aac'', ''h264'')" by code_simp
  from a have "NormACodec g = ''''" by (simp add: decodedFormat_def n)
  moreover from v have "NormVCodec g = ''h264''" by (simp add: decodedFormat_def t)
  ultimately show ?thesis using g parseInfo_noneCodec by simp
qed

text \<open>
  Keyed by the extension itself the table gives nothing for \<open>MP3\<close>; the source
  lower-cases the extension first and finds \<open>mp3\<close>.
\<close>

theorem parseInfo_codec_fallback_counterexample:
  "parseInfo exampleSys (Inr upperExtJSON) = Inr upperExtParsed \<and>
   json_Unmarshal exampleSys upperExtJSON =
     Inr (decodedInfo [Some (decodedFormat ''a'' ''MP3'' '''' '''' 0)]) \<and>
   NormACodec (the (Formats upperExtParsed ! 0)) = ''mp3'' \<and>
   fst (describedExtTable ''MP3'') = ''''"
  by code_simp

text \<open>
  C6. Whenever \<open>parseInfo\<close> accepts a byte sequence, the result keeps exactly these bytes
  as \<open>rawJSON\<close>, and parsing the kept bytes again gives the same \<open>Info\<close>, derived fields
  included.
\<close>

theorem parseInfo_rawJSON_roundtrip:
  assumes "parseInfo s (Inr raw) = Inr i"
  shows "rawJSON i = raw \<and> parseInfo s (Inr (rawJSON i)) = Inr i"
proof -
  from parseInfo_Inr[OF assms] have "rawJSON i = raw" by auto
  with assms show ?thesis by simp
qed

theorem parseInfo_rawJSON_roundtrip_witness:
  "parseInfo exampleSys (Inr noneCodecJSON) = Inr noneCodecParsed \<and>
   rawJSON noneCodecParsed = noneCodecJSON \<and>
   parseInfo exampleSys (Inr (rawJSON noneCodecParsed)) = Inr noneCodecParsed"
  using parseInfo_noneCodec parseInfo_rawJSON_roundtrip[OF parseInfo_noneCodec]
  by blast

section \<open>NewFromURL: the diagnostic stream and the command line\<close>

lemma HasPrefix_split: "HasPrefix l p \<Longrightarrow> l = p @ drop (length p) l"
  by (metis HasPrefix_def append_take_drop_id)

lemma scanStderr_fst:
  "fst (scanStderr ls) = map_option (drop (length errorPrefix)) (find (\<lambda>l. HasPrefix l errorPrefix) ls)"
  by (induction ls) (auto split: prod.splits)

lemma scanStderr_cases:
  "scanStderr ls = (r, seen) \<Longrightarrow>
     r = map_option (drop (length errorPrefix)) (find (\<lambda>l. HasPrefix l errorPrefix) ls)"
  using scanStderr_fst[of ls] by simp

lemma failingRun_first_error:
  "find (\<lambda>l. HasPrefix l errorPrefix) (stderrLines failingRun) = Some ''ERROR: Unsupported URL: x''"
  by code_simp

text \<open>
  C7 (as amended). Once the tool has started, \<open>NewFromURL\<close> reads the diagnostic stream
  line by line. At the first line that begins with \<open>"ERROR: "\<close> it returns the rest of that
  line behind the prefix (the prefix itself is cut off) as an \<open>Error\<close>, without waiting for
  the tool to exit. When no line has the prefix the scan gives no error: the result is
  that of waiting for the exit and then of reading the directory.
\<close>

theorem NewFromURL_stderr_scan:
  assumes "stderrPipe p = None" and "stdinPipe p = None" and "start p = None"
  shows "(case find (\<lambda>l. HasPrefix l errorPrefix) (stderrLines p) of
            Some l \<Rightarrow>
              l = errorPrefix @ drop (length errorPrefix) l \<and>
              fst (NewFromURL s p url) = Inl (Error (drop (length errorPrefix) l)) \<and>
              Wait \<notin> set (snd (NewFromURL s p url))
          | None \<Rightarrow>
              fst (NewFromURL s p url) =
                (case wait p of Some err \<Rightarrow> Inl err | None \<Rightarrow> NewFromPath s (tempDir p)) \<and>
              Wait \<in> set (snd (NewFromURL s p url)))"
proof (cases "find (\<lambda>l. HasPrefix l errorPrefix) (stderrLines p)")
  case None
  obtain r seen where sc: "scanStderr (stderrLines p) = (r, seen)"
    by (cases "scanStderr (stderrLines p)") auto
  with scanStderr_cases[OF sc] None have "scanStderr (stderrLines p) = (None, seen)" by simp
  with None assms show ?thesis
    by (simp add: NewFromURL_def Let_def split: option.splits)
next
  case (Some l)
  then have pre: "HasPrefix l errorPrefix"
    by (auto simp add: find_Some_iff)
  obtain r seen where sc: "scanStderr (stderrLines p) = (r, seen)"
    by (cases "scanStderr (stderrLines p)") auto
  with scanStderr_cases[OF sc] Some
  have "scanStderr (stderrLines p) = (Some (drop (length errorPrefix) l), seen)" by simp
  with Some assms HasPrefix_split[OF pre] show ?thesis
    by (auto simp add: NewFromURL_def Let_def)
qed

theorem NewFromURL_stderr_scan_witness:
  "fst (NewFromURL exampleSys failingRun ''https://example.org/v'') = Inl (Error ''Unsupported URL: x'') \<and>
   Wait \<notin> set (snd (NewFromURL exampleSys failingRun ''https://example.org/v''))"
proof -
  have "stderrPipe failingRun = None" and "stdinPipe failingRun = None" and "start failingRun = None"
    by (simp_all add: failingRun_def)
  from NewFromURL_stderr_scan[OF this, of exampleSys "''https://example.org/v''"]
  have inst:
    "fst (NewFromURL exampleSys failingRun ''https://example.org/v'')
       = Inl (Error (drop (length errorPrefix) ''ERROR: Unsupported URL: x'')) \<and>
     Wait \<notin> set (snd (NewFromURL exampleSys failingRun ''https://example.org/v''))"
    by (simp add: failingRun_first_error)
  have rest: "drop (length errorPrefix) ''ERROR: Unsupported URL: x'' = ''Unsupported URL: x''"
    by (simp add: errorPrefix_def)
  from inst rest show ?thesis
    by simp
qed

text \<open>
  The error is not the line as it was read: the line is \<open>"ERROR: Unsupported URL: x"\<close>, the
  error says \<open>"Unsupported URL: x"\<close>.
\<close>

theorem NewFromURL_verbatim_counterexample:
  "stderrLines failingRun ! 1 = ''ERROR: Unsupported URL: x'' \<and>
   fst (NewFromURL exampleSys failingRun ''https://example.org/v'') = Inl (Error ''Unsupported URL: x'') \<and>
   fst (NewFromURL exampleSys failingRun ''https://example.org/v'') \<noteq> Inl (Error ''ERROR: Unsupported URL: x'')"
  by code_simp

lemma commandLines_append: "commandLines (xs @ ys) = commandLines xs @ commandLines ys"
  by (induction xs rule: commandLines.induct) simp_all

lemma commandLines_ScanLine: "commandLines (map ScanLine ls) = []"
  by (induction ls) simp_all

lemma stdinWrites_append: "stdinWrites (xs @ ys) = stdinWrites xs @ stdinWrites ys"
  by (induction xs rule: stdinWrites.induct) simp_all

lemma stdinWrites_ScanLine: "stdinWrites (map ScanLine ls) = []"
  by (induction ls) simp_all

lemma NewFromURL_commandLines: "commandLines (snd (NewFromURL s p url)) = [youtubedlArgs]"
  by (simp add: NewFromURL_def Let_def commandLines_append commandLines_ScanLine
      split: option.splits prod.splits)

lemma NewFromURL_stdinWrites:
  "stdinWrites (snd (NewFromURL s p url)) =
     (if stderrPipe p = None \<and> stdinPipe p = None \<and> start p = None
      then [url @ [CHR 0x0A]] else [])"
  by (simp add: NewFromURL_def Let_def stdinWrites_append stdinWrites_ScanLine
      split: option.splits prod.splits)

text \<open>
  C9. The command line \<open>NewFromURL\<close> builds is the same fixed list for every URL (and for
  every run): the URL is not among the arguments. The URL goes, followed by a newline, to
  the standard input of the process, once it has started.
\<close>

theorem NewFromURL_arguments_independent_of_url:
  "commandLines (snd (NewFromURL s p url)) = [youtubedlArgs] \<and>
   commandLines (snd (NewFromURL s p url)) = commandLines (snd (NewFromURL s' p' url')) \<and>
   stdinWrites (snd (NewFromURL s p url)) =
     (if stderrPipe p = None \<and> stdinPipe p = None \<and> start p = None
      then [url @ [CHR 0x0A]] else [])"
proof (intro conjI)
  show "commandLines (snd (NewFromURL s p url)) = [youtubedlArgs]"
    by (rule NewFromURL_commandLines)
  have "commandLines (snd (NewFromURL s' p' url')) = [youtubedlArgs]"
    by (rule NewFromURL_commandLines)
  then show "commandLines (snd (NewFromURL s p url)) = commandLines (snd (NewFromURL s' p' url'))"
    by (simp only: NewFromURL_commandLines)
  show "stdinWrites (snd (NewFromURL s p url)) =
     (if stderrPipe p = None \<and> stdinPipe p = None \<and> start p = None
      then [url @ [CHR 0x0A]] else [])"
    by (rule NewFromURL_stdinWrites)
qed


theorem NewFromURL_arguments_independent_of_url_witness:
  "commandLines (snd (NewFromURL exampleSys cleanRun ''--exec=reboot'')) = [youtubedlArgs] \<and>
   commandLines (snd (NewFromURL exampleSys cleanRun ''--exec=reboot''))
     = commandLines (snd (NewFromURL exampleSys failingRun ''https://example.org/v'')) \<and>
   stdinWrites (snd (NewFromURL exampleSys cleanRun ''--exec=reboot'')) = [''--exec=reboot'' @ [CHR 0x0A]]"
proof -
  have started: "stderrPipe cleanRun = None \<and> stdinPipe cleanRun = None \<and> start cleanRun = None"
    by (simp add: cleanRun_def)
  note inst = NewFromURL_arguments_independent_of_url
    [of exampleSys cleanRun "''--exec=reboot''" exampleSys failingRun "''https://example.org/v''"]
  from inst have a: "commandLines (snd (NewFromURL exampleSys cleanRun ''--exec=reboot'')) = [youtubedlArgs]"
    by (rule conjunct1)
  from inst have b: "commandLines (snd (NewFromURL exampleSys cleanRun ''--exec=reboot''))
     = commandLines (snd (NewFromURL exampleSys failingRun ''https://example.org/v''))"
    by (rule conjunct2[THEN conjunct1])
  from inst started
  have c: "stdinWrites (snd (NewFromURL exampleSys cleanRun ''--exec=reboot'')) = [''--exec=reboot'' @ [CHR 0x0A]]"
    by simp
  from a b c show ?thesis
    by blast
qed

section \<open>NewFromPath: a directory without a metadata file\<close>

lemma path_Ext_loop_suffix:
  "path_Ext_loop r acc \<noteq> '''' \<Longrightarrow> suffix (path_Ext_loop r acc) (rev r @ acc)"
proof (induction r arbitrary: acc)
  case Nil
  then show ?case by simp
next
  case (Cons c cs)
  show ?case
  proof (cases "c = CHR ''/''")
    case True
    with Cons.prems show ?thesis by simp
  next
    case False
    show ?thesis
    proof (cases "c = CHR ''.''")
      case True
      then show ?thesis by (simp add: suffix_def)
    next
      case dot: False
      with False Cons.prems have "path_Ext_loop cs (c # acc) \<noteq> ''''" by simp
      from Cons.IH[OF this] False dot show ?thesis by simp
    qed
  qed
qed

lemma path_Ext_suffix: "path_Ext name = ''.json'' \<Longrightarrow> suffix ''.json'' name"
  using path_Ext_loop_suffix[of "rev name" "''''"] by (simp add: path_Ext_def)

lemma NewFromPath_loop_no_json:
  "\<forall>n\<in>set names. path_Ext n \<noteq> ''.json'' \<Longrightarrow>
     fst (NewFromPath_loop s infoPath names (j, t)) = j"
  by (induction names arbitrary: t) (simp_all add: Let_def)

text \<open>
  C10. When the directory can be read and none of its entries has a name ending in
  \<open>".json"\<close>, \<open>NewFromPath\<close> returns an error and no \<open>Info\<close>. The guard compares the
  directory path (not the path of the metadata file) with the empty string, so for a
  directory with a name the error is that of opening the file with the empty name.
\<close>

theorem NewFromPath_without_json:
  assumes "ioutil_ReadDir s infoPath = Inr names"
    and "\<forall>n\<in>set names. \<not> suffix ''.json'' n"
  shows "NewFromPath s infoPath =
           Inl (if infoPath = '''' then Errorf ''no info json found''
                else IOError ''open : no such file or directory'')"
proof -
  from assms(2) have "\<forall>n\<in>set names. path_Ext n \<noteq> ''.json''"
    using path_Ext_suffix by blast
  then have "fst (NewFromPath_loop s infoPath names ('''', '''')) = ''''"
    by (rule NewFromPath_loop_no_json)
  then obtain t where "NewFromPath_loop s infoPath names ('''', '''') = ('''', t)"
    by (cases "NewFromPath_loop s infoPath names ('''', '''')") auto
  with assms(1) show ?thesis
    by (simp add: NewFromPath_def os_Open_def)
qed

theorem NewFromPath_without_json_witness:
  "NewFromPath exampleSys ''/tmp/ydls-youtubedl2'' = Inl (IOError ''open : no such file or directory'')"
proof -
  have "ioutil_ReadDir exampleSys ''/tmp/ydls-youtubedl2'' = Inr [''clip.txt'', ''json'']"
    by (simp add: exampleSys_def)
  moreover have "\<forall>n\<in>set [''clip.txt'', ''json'']. \<not> suffix ''.json'' n"
    by (simp add: suffix_def)
  ultimately show ?thesis
    using NewFromPath_without_json[of exampleSys "''/tmp/ydls-youtubedl2''" "[''clip.txt'', ''json'']"]
    by simp
qed

section \<open>The date token\<close>

lemma isDigit_not_sign: "isDigit c \<Longrightarrow> c \<noteq> CHR ''-'' \<and> c \<noteq> CHR ''+''"
  by (auto simp add: isDigit_def)

lemma leadingInt_digits:
  "list_all isDigit s \<Longrightarrow> leadingInt s x = (foldl (\<lambda>x c. 10 * x + digitVal c) x s, [])"
  by (induction s arbitrary: x) (simp_all add: mult.commute)

lemma leadingInt_rest: "\<not> list_all isDigit s \<Longrightarrow> snd (leadingInt s x) \<noteq> []"
  by (induction s arbitrary: x) simp_all

lemma atoi_digits:
  assumes "isDigit c"
  shows "atoi (c # cs) = (if list_all isDigit cs then Some (decimal (c # cs)) else None)"
proof -
  have unsigned: "\<not> (c # cs \<noteq> [] \<and> (hd (c # cs) = CHR ''-'' \<or> hd (c # cs) = CHR ''+''))"
    using isDigit_not_sign[OF assms] by simp
  show ?thesis
  proof (cases "list_all isDigit cs")
    case True
    with assms have "list_all isDigit (c # cs)" by simp
    from leadingInt_digits[OF this, of 0]
    have "leadingInt (c # cs) 0 = (decimal (c # cs), [])"
      by (simp only: decimal_def)
    with True unsigned show ?thesis
      by (simp add: atoi_def Let_def del: leadingInt.simps)
  next
    case False
    with assms have "\<not> list_all isDigit (c # cs)" by simp
    from leadingInt_rest[OF this, of 0] obtain q rem where
      "leadingInt (c # cs) 0 = (q, rem)" and "rem \<noteq> []"
      by (cases "leadingInt (c # cs) 0") auto
    with False unsigned show ?thesis
      by (simp add: atoi_def Let_def del: leadingInt.simps)
  qed
qed

lemma getnum_fixed:
  "getnum (x # y # r) True = (if isDigit x \<and> isDigit y then Some (decimal [x, y], r) else None)"
  by (simp add: getnum_def isDigitAt_def decimal_def)

lemma Parse_length: "Parse_20060102 s = Some d \<Longrightarrow> length s = 8"
  by (auto simp add: Parse_20060102_def getnum_def isDigitAt_def
      split: if_splits option.splits prod.splits)

lemma length_eight:
  "length s = 8 \<Longrightarrow> \<exists>a b c d e f g h. s = [a, b, c, d, e, f, g, h]"
  by (auto simp add: length_Suc_conv eval_nat_numeral)

lemma Parse_eight:
  "Parse_20060102 [a, b, c, d, e, f, g, h] =
     (if isDateToken [a, b, c, d, e, f, g, h] then Some (tokenDate [a, b, c, d, e, f, g, h])
      else None)"
proof (cases "isDigit a")
  case True
  then show ?thesis
    by (simp add: Parse_20060102_def atoi_digits getnum_fixed isDigitAt_def isDateToken_def
        tokenDate_def)
next
  case False
  then show ?thesis
    by (simp add: Parse_20060102_def isDigitAt_def isDateToken_def)
qed

lemma Parse_isDateToken:
  "Parse_20060102 s = (if isDateToken s then Some (tokenDate s) else None)"
proof (cases "length s = 8")
  case True
  then obtain a b c d e f g h where "s = [a, b, c, d, e, f, g, h]"
    using length_eight by blast
  then show ?thesis by (simp only: Parse_eight)
next
  case False
  then have "Parse_20060102 s = None"
    using Parse_length by (cases "Parse_20060102 s") auto
  with False show ?thesis by (simp add: isDateToken_def)
qed

section \<open>The feed\<close>

lemma Format_RFC1123Z_nonempty: "Format_RFC1123Z d \<noteq> ''''"
  by (cases d) (simp add: Format_RFC1123Z_def)

lemma pubDateOf_eq:
  "pubDateOf entry =
     (if isDateToken (info_UploadDate entry) then Format_RFC1123Z (tokenDate (info_UploadDate entry))
      else '''')"
  by (auto simp add: pubDateOf_def Parse_isDateToken isDateToken_def)

lemma RSS_loop_eq:
  "RSS_loop env baseURL feedURL edo ef entries items =
     items @ map (RSS_item env baseURL feedURL edo ef) (filter (\<lambda>entry. \<not> skipped entry) entries)"
  by (induction entries arbitrary: items) (simp_all add: skipped_def)

lemma RSS_item_fields:
  "item_PubDate (RSS_item env baseURL feedURL edo ef entry) = pubDateOf entry"
  "item_Link (RSS_item env baseURL feedURL edo ef entry) = info_WebpageURL entry"
  by (simp_all add: RSS_item_def Let_def)

lemma RSSFromYDLSInfo_Inr:
  assumes "opt_Format options = Some format"
    and "opt_Format (fmt_EnclosureDownloadOptions format) = Some enclosureFormat"
  shows "\<exists>feed baseURL feedURL.
     RSSFromYDLSInfo env options info linkIconRawURL = Inr feed \<and>
     chan_Items (rss_Channel feed) =
       map (RSS_item env baseURL feedURL (fmt_EnclosureDownloadOptions format) enclosureFormat)
         (filter (\<lambda>entry. \<not> skipped entry) (info_Entries info))"
proof -
  define baseURL where "baseURL = (case opt_BaseURL options of None \<Rightarrow> emptyURL | Some u \<Rightarrow> u)"
  define feedURL where "feedURL = ResolveReference env baseURL
     (emptyURL\<lparr>Path := fmt_Name enclosureFormat @ ''/'' @ info_WebpageURL info\<rparr>)"
  have "\<exists>feed. RSSFromYDLSInfo env options info linkIconRawURL = Inr feed \<and>
     chan_Items (rss_Channel feed) =
       map (RSS_item env baseURL feedURL (fmt_EnclosureDownloadOptions format) enclosureFormat)
         (filter (\<lambda>entry. \<not> skipped entry) (info_Entries info))"
    using assms by (simp add: RSSFromYDLSInfo_def Let_def RSS_loop_eq baseURL_def feedURL_def)
  then show ?thesis by blast
qed

lemma RSSFromYDLSInfo_withItems:
  "RSSFromYDLSInfo env (withItems options n) info linkIconRawURL
     = RSSFromYDLSInfo env options info linkIconRawURL"
  by (simp add: RSSFromYDLSInfo_def withItems_def Let_def split: option.splits)

lemma list_all2_map_same:
  "list_all2 P xs (map f xs) \<longleftrightarrow> list_all (\<lambda>x. P x (f x)) xs"
  by (induction xs) simp_all

lemma oneItemOptions_formats:
  "opt_Format oneItemOptions = Some rssFormat"
  "opt_Format (fmt_EnclosureDownloadOptions rssFormat) = Some mp3Format"
  by (simp_all add: oneItemOptions_def rssFormat_def)

lemma withItems_formats:
  "opt_Format (withItems options n) = opt_Format options"
  by (simp add: withItems_def)

text \<open>
  C2 (as amended). When the two format pointers of the options are set, \<open>RSSFromYDLSInfo\<close>
  returns a feed with exactly one item for every child entry whose type is neither
  \<open>"playlist"\<close> nor \<open>"multi_video"\<close>, in the order of the entries; nested playlists give no
  item. The function applies no limit: the item count of the options does not change the
  feed.
\<close>

theorem RSSFromYDLSInfo_items:
  assumes "opt_Format options = Some format"
    and "opt_Format (fmt_EnclosureDownloadOptions format) = Some enclosureFormat"
  shows "\<exists>feed. RSSFromYDLSInfo env options info linkIconRawURL = Inr feed \<and>
     map item_Link (chan_Items (rss_Channel feed))
       = map info_WebpageURL (filter (\<lambda>entry. \<not> skipped entry) (info_Entries info)) \<and>
     length (chan_Items (rss_Channel feed))
       = length (filter (\<lambda>entry. \<not> skipped entry) (info_Entries info)) \<and>
     (\<forall>n. RSSFromYDLSInfo env (withItems options n) info linkIconRawURL = Inr feed)"
proof -
  from RSSFromYDLSInfo_Inr[OF assms, of env info linkIconRawURL]
  obtain feed baseURL feedURL where
    feed: "RSSFromYDLSInfo env options info linkIconRawURL = Inr feed" and
    items: "chan_Items (rss_Channel feed) =
       map (RSS_item env baseURL feedURL (fmt_EnclosureDownloadOptions format) enclosureFormat)
         (filter (\<lambda>entry. \<not> skipped entry) (info_Entries info))"
    by blast
  have "map item_Link (chan_Items (rss_Channel feed))
       = map info_WebpageURL (filter (\<lambda>entry. \<not> skipped entry) (info_Entries info))"
    by (simp add: items RSS_item_fields)
  moreover have "length (chan_Items (rss_Channel feed))
       = length (filter (\<lambda>entry. \<not> skipped entry) (info_Entries info))"
    by (simp add: items)
  moreover have "\<forall>n. RSSFromYDLSInfo env (withItems options n) info linkIconRawURL = Inr feed"
    by (simp add: RSSFromYDLSInfo_withItems feed)
  ultimately show ?thesis using feed by blast
qed

text \<open>
  The playlist has two tracks and a nested playlist between them; with an item count of 2
  the feed has the two tracks.
\<close>

theorem RSSFromYDLSInfo_items_witness:
  "(\<exists>feed. RSSFromYDLSInfo exampleEnv (withItems oneItemOptions 2) examplePlaylist '''' = Inr feed \<and>
      length (chan_Items (rss_Channel feed))
        = length (filter (\<lambda>entry. \<not> skipped entry) (info_Entries examplePlaylist))) \<and>
   map item_Link (itemsOf (RSSFromYDLSInfo exampleEnv (withItems oneItemOptions 2) examplePlaylist ''''))
     = [''https://example.org/a1'', ''https://example.org/a2'']"
proof -
  have f1: "opt_Format (withItems oneItemOptions 2) = Some rssFormat"
    by (simp add: withItems_formats oneItemOptions_formats)
  from RSSFromYDLSInfo_items[OF f1 oneItemOptions_formats(2), of exampleEnv examplePlaylist "''''"]
  have "\<exists>feed. RSSFromYDLSInfo exampleEnv (withItems oneItemOptions 2) examplePlaylist '''' = Inr feed \<and>
      length (chan_Items (rss_Channel feed))
        = length (filter (\<lambda>entry. \<not> skipped entry) (info_Entries examplePlaylist))"
    by blast
  moreover
  have "map item_Link (itemsOf (RSSFromYDLSInfo exampleEnv (withItems oneItemOptions 2) examplePlaylist ''''))
     = [''https://example.org/a1'', ''https://example.org/a2'']"
    by code_simp
  ultimately show ?thesis by blast
qed

text \<open>
  With an item count of 1 the feed of the same playlist still has two items: the limit of
  the claim is not applied here.
\<close>

theorem RSSFromYDLSInfo_limit_counterexample:
  "opt_Items oneItemOptions = 1 \<and>
   map item_Link (itemsOf (RSSFromYDLSInfo exampleEnv oneItemOptions examplePlaylist ''''))
     = [''https://example.org/a1'', ''https://example.org/a2''] \<and>
   \<not> int (length (itemsOf (RSSFromYDLSInfo exampleEnv oneItemOptions examplePlaylist '''')))
       \<le> opt_Items oneItemOptions"
  by code_simp

text \<open>
  C8. When the two format pointers of the options are set, \<open>RSSFromYDLSInfo\<close> returns a
  feed, whatever the upload dates are, and for each item and the entry it was made from:
  the publish date is not empty exactly when the upload date is not empty and is a date
  token (eight digits, year, month, day, naming a day of the calendar); it is then that
  day in the layout of RFC 1123 with numeric zone. Any other token, such as
  \<open>"2024-13-99"\<close>, gives the empty publish date.
\<close>

theorem RSSFromYDLSInfo_publish_dates:
  assumes "opt_Format options = Some format"
    and "opt_Format (fmt_EnclosureDownloadOptions format) = Some enclosureFormat"
  shows "\<exists>feed. RSSFromYDLSInfo env options info linkIconRawURL = Inr feed \<and>
     list_all2 (\<lambda>entry item.
         (item_PubDate item \<noteq> '''' \<longleftrightarrow>
            info_UploadDate entry \<noteq> '''' \<and> isDateToken (info_UploadDate entry)) \<and>
         (isDateToken (info_UploadDate entry) \<longrightarrow>
            item_PubDate item = Format_RFC1123Z (tokenDate (info_UploadDate entry))) \<and>
         (info_UploadDate entry = ''2024-13-99'' \<longrightarrow> item_PubDate item = ''''))
       (filter (\<lambda>entry. \<not> skipped entry) (info_Entries info))
       (chan_Items (rss_Channel feed))"
proof -
  from RSSFromYDLSInfo_Inr[OF assms, of env info linkIconRawURL]
  obtain feed baseURL feedURL where
    feed: "RSSFromYDLSInfo env options info linkIconRawURL = Inr feed" and
    items: "chan_Items (rss_Channel feed) =
       map (RSS_item env baseURL feedURL (fmt_EnclosureDownloadOptions format) enclosureFormat)
         (filter (\<lambda>entry. \<not> skipped entry) (info_Entries info))"
    by blast
  have token: "isDateToken s \<Longrightarrow> s \<noteq> ''''" for s
    by (auto simp add: isDateToken_def)
  have malformed: "\<not> isDateToken ''2024-13-99''"
    by (simp add: isDateToken_def)
  have entry: "(pubDateOf e \<noteq> '''' \<longleftrightarrow> info_UploadDate e \<noteq> '''' \<and> isDateToken (info_UploadDate e)) \<and>
         (isDateToken (info_UploadDate e) \<longrightarrow>
            pubDateOf e = Format_RFC1123Z (tokenDate (info_UploadDate e))) \<and>
         (info_UploadDate e = ''2024-13-99'' \<longrightarrow> pubDateOf e = '''')" for e
    using token[of "info_UploadDate e"] malformed
    by (auto simp add: pubDateOf_eq Format_RFC1123Z_nonempty)
  have "list_all2 (\<lambda>entry item.
         (item_PubDate item \<noteq> '''' \<longleftrightarrow>
            info_UploadDate entry \<noteq> '''' \<and> isDateToken (info_UploadDate entry)) \<and>
         (isDateToken (info_UploadDate entry) \<longrightarrow>
            item_PubDate item = Format_RFC1123Z (tokenDate (info_UploadDate entry))) \<and>
         (info_UploadDate entry = ''2024-13-99'' \<longrightarrow> item_PubDate item = ''''))
       (filter (\<lambda>entry. \<not> skipped entry) (info_Entries info))
       (chan_Items (rss_Channel feed))"
    unfolding items list_all2_map_same RSS_item_fields
    using entry by (simp add: list_all_iff)
  with feed show ?thesis by blast
qed

text \<open>
  The first track of the playlist was uploaded on 31 January 2024, a Wednesday; the second
  carries the token \<open>"2024-13-99"\<close>.
\<close>

theorem RSSFromYDLSInfo_publish_dates_witness:
  "(\<exists>feed. RSSFromYDLSInfo exampleEnv oneItemOptions examplePlaylist '''' = Inr feed) \<and>
   map item_PubDate (itemsOf (RSSFromYDLSInfo exampleEnv oneItemOptions examplePlaylist ''''))
     = [''Wed, 31 Jan 2024 00:00:00 +0000'', '''']"
proof -
  from RSSFromYDLSInfo_publish_dates
    [OF oneItemOptions_formats, of exampleEnv examplePlaylist "''''"]
  have "\<exists>feed. RSSFromYDLSInfo exampleEnv oneItemOptions examplePlaylist '''' = Inr feed"
    by blast
  moreover
  have "map item_PubDate (itemsOf (RSSFromYDLSInfo exampleEnv oneItemOptions examplePlaylist ''''))
     = [''Wed, 31 Jan 2024 00:00:00 +0000'', '''']"
    by code_simp
  ultimately show ?thesis by blast
qed

section \<open>The negotiator\<close>







text \<open>
  The catalog holds the derived fields that \<open>parseInfo\<close> computes from the raw fields of the
  test's literals. Among the literals as the test passes them no normalized codec is set:
  the selection finds nothing there, whatever is asked for; the test checks the identifier
  only of a format that is found.
\<close>

lemma specCatalog_parsed: "specCatalog = map (parseInfo_format exampleSys) ydlFormats"
  by code_simp

lemma findYDLFormat_ydlFormats: "findYDLFormat usable ydlFormats media codecs = None"
proof -
  have e: "\<forall>f\<in>set ydlFormats. mediaCodec media f = ''''"
    by (cases media) (simp_all add: ydlFormats_def decodedFormat_def mediaCodec_def)
  then have none: "find (\<lambda>f. mediaCodec media f \<noteq> '''') ydlFormats = None"
    by (simp add: find_None_iff)
  from e have "find (matchesCodec usable media codec) ydlFormats = None" for codec
    by (auto simp add: find_None_iff matchesCodec_def)
  then have "findPreferred usable ydlFormats media cs = None" for cs
    by (induction cs) simp_all
  with none show ?thesis by (simp add: findYDLFormat_def)
qed



end
